theory Spec2Isabelle
  imports Main "HOL-Library.Sublist" "HOL-Library.Word"
begin

section \<open>Python strings\<close>

text \<open>
  A Python \<open>str\<close> is modelled as a \<open>string\<close>, one \<open>char\<close> per code point
  (code points below 256). The two delimiters of \<open>Dots2Detector.__init__\<close>:
\<close>

definition bot_token :: string where
  "bot_token = ''<dots_function_call>''"

definition eot_token :: string where
  "eot_token = ''</dots_function_call>''"

text \<open>
  \<open>text.find(pat)\<close>: the lowest index at which \<open>pat\<close> occurs, \<open>None\<close> for Python's
  \<open>-1\<close>. \<open>text.find(pat, start)\<close> searches \<open>text[start:]\<close> and reports the index in
  \<open>text\<close>. \<open>pat in text\<close> is \<open>str_contains\<close>.
\<close>

fun str_find :: "string \<Rightarrow> string \<Rightarrow> nat option" where
  "str_find pat [] = (if pat = [] then Some 0 else None)"
| "str_find pat (c # cs) =
     (if prefix pat (c # cs) then Some 0 else map_option Suc (str_find pat cs))"

definition str_find_from :: "string \<Rightarrow> string \<Rightarrow> nat \<Rightarrow> nat option" where
  "str_find_from pat text start =
     map_option (\<lambda>i. i + start) (str_find pat (drop start text))"

definition str_contains :: "string \<Rightarrow> string \<Rightarrow> bool" where
  "str_contains pat text = (str_find pat text \<noteq> None)"

text \<open>\<open>text[i:j]\<close> for \<open>0 \<le> i\<close>, \<open>0 \<le> j\<close>.\<close>

definition slice :: "string \<Rightarrow> nat \<Rightarrow> nat \<Rightarrow> string" where
  "slice text i j = drop i (take j text)"

text \<open>
  \<open>str.isspace\<close> on one code point below 256: the characters \<open>str.strip()\<close> removes
  and the regular expression class \<open>\s\<close> matches.
\<close>

definition is_space :: "char \<Rightarrow> bool" where
  "is_space c =
     (let n = (of_char c :: nat)
      in (9 \<le> n \<and> n \<le> 13) \<or> (28 \<le> n \<and> n \<le> 32) \<or> n = 133 \<or> n = 160)"

definition strip :: "string \<Rightarrow> string" where
  "strip text = rev (dropWhile is_space (rev (dropWhile is_space text)))"

text \<open>\<open>text.replace(old, new)\<close> for a non-empty \<open>old\<close>: left to right, without overlaps.\<close>

fun str_replace :: "string \<Rightarrow> string \<Rightarrow> string \<Rightarrow> string" where
  "str_replace old new [] = []"
| "str_replace old new (c # cs) =
     (if old \<noteq> [] \<and> prefix old (c # cs)
      then new @ str_replace old new (drop (length old) (c # cs))
      else c # str_replace old new cs)"

section \<open>JSON values and Python exceptions\<close>

text \<open>
  What \<open>json.loads\<close> returns: \<open>None\<close>, a bool, an int, a float (its IEEE-754 binary64
  bit pattern), a str, a list or a dict (keys in insertion order).
\<close>

datatype json =
    JNull
  | JBool bool
  | JInt int
  | JFloat "64 word"
  | JStr string
  | JArr "json list"
  | JObj "(string \<times> json) list"

datatype exn = JSONDecodeError | AttributeError | IndexError | ValidationError | OtherError

type_synonym pydict = "(string \<times> json) list"

text \<open>Python's truth value of a decoded value (\<open>if func_args\<close>).\<close>

fun truthy :: "json \<Rightarrow> bool" where
  "truthy JNull = False"
| "truthy (JBool b) = b"
| "truthy (JInt i) = (i \<noteq> 0)"
| "truthy (JFloat w) = (w \<noteq> 0 \<and> w \<noteq> 0x8000000000000000)"
| "truthy (JStr s) = (s \<noteq> [])"
| "truthy (JArr xs) = (xs \<noteq> [])"
| "truthy (JObj kvs) = (kvs \<noteq> [])"

text \<open>
  \<open>obj.get(key, default)\<close>: only a dict has the method; on any other value the attribute
  lookup raises \<open>AttributeError\<close>.
\<close>

definition py_get :: "json \<Rightarrow> string \<Rightarrow> json \<Rightarrow> exn + json" where
  "py_get obj key dflt =
     (case obj of
        JObj kvs \<Rightarrow> Inr (case map_of kvs key of Some v \<Rightarrow> v | None \<Rightarrow> dflt)
      | _ \<Rightarrow> Inl AttributeError)"

text \<open>\<open>d[key] = v\<close> on a dict: replaces the value of a present key, appends a new key.\<close>

fun dict_set :: "pydict \<Rightarrow> string \<Rightarrow> json \<Rightarrow> pydict" where
  "dict_set [] key v = [(key, v)]"
| "dict_set ((k, w) # kvs) key v =
     (if k = key then (k, v) # kvs else (k, w) # dict_set kvs key v)"

text \<open>
  \<open>xs[i]\<close> and \<open>xs[i] = v\<close> on a list with an integer index: a negative index counts
  from the end, an index out of range raises \<open>IndexError\<close>.
\<close>

definition py_index :: "nat \<Rightarrow> int \<Rightarrow> nat option" where
  "py_index len i =
     (if 0 \<le> i \<and> i < int len then Some (nat i)
      else if i < 0 \<and> - int len \<le> i then Some (nat (int len + i))
      else None)"

definition list_get :: "'a list \<Rightarrow> int \<Rightarrow> exn + 'a" where
  "list_get xs i =
     (case py_index (length xs) i of
        Some k \<Rightarrow> Inr (xs ! k)
      | None \<Rightarrow> Inl IndexError)"

definition list_set :: "'a list \<Rightarrow> int \<Rightarrow> 'a \<Rightarrow> exn + 'a list" where
  "list_set xs i v =
     (case py_index (length xs) i of
        Some k \<Rightarrow> Inr (xs[k := v])
      | None \<Rightarrow> Inl IndexError)"

text \<open>\<open>while len(xs) <= i: xs.append(d)\<close>\<close>

function append_until :: "'a list \<Rightarrow> int \<Rightarrow> 'a \<Rightarrow> 'a list" where
  "append_until xs i d =
     (if int (length xs) \<le> i then append_until (xs @ [d]) i d else xs)"
  by pat_completeness auto
termination
  by (relation "measure (\<lambda>(xs, i, d). nat (i + 1 - int (length xs)))") auto

declare append_until.simps [simp del]

text \<open>
  Modelled from the spec: \<open>_is_complete_json\<close> of \<open>sglang.srt.function_call.utils\<close>,
  which is not among the sources. Section 4.4: it attempts to parse the candidate as a JSON
  value and is true iff it parses without error. The parser \<open>loads\<close> is \<open>json.loads\<close>.
\<close>

definition is_complete_json :: "(string \<Rightarrow> exn + json) \<Rightarrow> string \<Rightarrow> bool" where
  "is_complete_json loads candidate =
     (case loads candidate of Inr _ \<Rightarrow> True | Inl _ \<Rightarrow> False)"

section \<open>Results and detector state\<close>

text \<open>
  \<open>ToolCallItem\<close> and \<open>StreamingParseResult\<close> of \<open>core_types\<close>, as the data model of the
  specification gives them; \<open>calls\<close> is empty when not given. A \<open>name\<close> of \<open>None\<close> is
  \<open>JNull\<close>.
\<close>

record tool_call_item =
  tool_index :: int
  name :: json
  parameters :: string

record streaming_parse_result =
  normal_text :: string
  calls :: "tool_call_item list"

text \<open>
  Modelled from the spec: the constructor \<open>ToolCallItem(tool_index=..., name=...,
  parameters=...)\<close>; the class is declared in \<open>core_types\<close>, which is not among the
  sources. Section 3: the name is optional, a string when present. The class validates
  its fields: a name that is neither a string nor \<open>None\<close> is refused and the constructor
  raises.
\<close>

definition name_ok :: "json \<Rightarrow> bool" where
  "name_ok nm = (case nm of JStr s \<Rightarrow> True | JNull \<Rightarrow> True | _ \<Rightarrow> False)"

definition ToolCallItem :: "int \<Rightarrow> json \<Rightarrow> string \<Rightarrow> exn + tool_call_item" where
  "ToolCallItem idx nm params =
     (if name_ok nm
      then Inr \<lparr>tool_index = idx, name = nm, parameters = params\<rparr>
      else Inl ValidationError)"

text \<open>
  The fields of a \<open>Dots2Detector\<close> that \<open>parse_streaming_increment\<close> reads and writes:
  \<open>_buffer\<close>, \<open>current_tool_id\<close>, \<open>prev_tool_call_arr\<close>, \<open>streamed_args_for_tool\<close>,
  \<open>current_tool_name_sent\<close> and \<open>_last_arguments\<close>. (\<open>_tool_indices\<close> is written once and
  never read in this class.)
\<close>

record detector_state =
  buffer :: string
  current_tool_id :: int
  prev_tool_call_arr :: "pydict list"
  streamed_args_for_tool :: "string list"
  current_tool_name_sent :: bool
  last_arguments :: string

text \<open>
  The state after \<open>__init__\<close>. \<open>_last_arguments\<close> and \<open>current_tool_id\<close> are set in
  \<open>Dots2Detector.__init__\<close>. Modelled from the spec: the fields that the base class
  initialises (\<open>BaseFormatDetector.__init__\<close> is not among the sources) start empty,
  with the name-sent flag unset (section 3, \<open>DetectorState\<close>).
\<close>

definition init_state :: detector_state where
  "init_state =
     \<lparr>buffer = [], current_tool_id = -1, prev_tool_call_arr = [],
      streamed_args_for_tool = [], current_tool_name_sent = False, last_arguments = []\<rparr>"

section \<open>One-shot extraction: \<open>detect_and_parse\<close>\<close>

text \<open>
  \<open>re.findall(r"<dots_function_call>\s*(.*?)\s*</dots_function_call>", text, re.DOTALL)\<close>:
  the matches are found left to right without overlap. A match starts at the first opening
  delimiter that has a closing delimiter after it; the lazy group stops before the first
  closing delimiter, and the two greedy \<open>\s*\<close> take the white space at both ends of the
  interior, so the group is the stripped interior. The search resumes after the closing
  delimiter.
\<close>

function func_call_regex_findall :: "string \<Rightarrow> string list" where
  "func_call_regex_findall text =
     (case str_find bot_token text of
        None \<Rightarrow> []
      | Some i \<Rightarrow>
          (let rest = drop (i + length bot_token) text
           in case str_find eot_token rest of
                None \<Rightarrow> []
              | Some e \<Rightarrow>
                  strip (take e rest)
                    # func_call_regex_findall (drop (e + length eot_token) rest)))"
  by pat_completeness auto
termination
proof (relation "measure length", goal_cases)
  case 1
  show ?case by simp
next
  case (2 t0 i rest e)
  have bound: "str_find p t = Some k \<Longrightarrow> k + length p \<le> length t" for p t k
  proof (induction t arbitrary: k)
    case Nil
    then show ?case by (simp split: if_splits)
  next
    case (Cons c cs)
    then show ?case
      by (auto split: if_splits dest: prefix_length_le)
  qed
  from 2 have "str_find bot_token t0 = Some i" by simp
  then have le: "i + length bot_token \<le> length t0" by (rule bound)
  have lb: "length bot_token = 20" by (simp add: bot_token_def)
  from 2 have "length rest = length t0 - (i + length bot_token)" by simp
  with le lb have "length rest < length t0" by linarith
  then show ?case by simp
qed

declare func_call_regex_findall.simps [simp del]

text \<open>
  The loop of the \<open>try\<close> block. \<open>loads\<close> is \<open>json.loads\<close>; \<open>parse_base_json\<close> is the
  method of the base class, applied to \<open>{"name": func_name, "parameters": func_args}\<close>
  (its \<open>tools\<close> argument is part of the parameter). Either may raise.
\<close>

fun detect_loop ::
  "(string \<Rightarrow> exn + json) \<Rightarrow> (json \<Rightarrow> exn + tool_call_item list)
     \<Rightarrow> string list \<Rightarrow> tool_call_item list \<Rightarrow> exn + tool_call_item list" where
  "detect_loop loads parse_base_json [] found = Inr found"
| "detect_loop loads parse_base_json (match_result # rest) found =
     (case loads (strip match_result) of
        Inl e \<Rightarrow> Inl e
      | Inr func_call_json \<Rightarrow>
     (case py_get func_call_json ''name'' JNull of
        Inl e \<Rightarrow> Inl e
      | Inr func_name \<Rightarrow>
     (case py_get func_call_json ''arguments'' (JObj []) of
        Inl e \<Rightarrow> Inl e
      | Inr func_args \<Rightarrow>
     (case parse_base_json (JObj [(''name'', func_name), (''parameters'', func_args)]) of
        Inl e \<Rightarrow> Inl e
      | Inr items \<Rightarrow> detect_loop loads parse_base_json rest (found @ items)))))"

definition detect_and_parse ::
  "(string \<Rightarrow> exn + json) \<Rightarrow> (json \<Rightarrow> exn + tool_call_item list)
     \<Rightarrow> string \<Rightarrow> streaming_parse_result" where
  "detect_and_parse loads parse_base_json text =
     (let idx = str_find bot_token text;
          normal = (case idx of Some i \<Rightarrow> strip (take i text) | None \<Rightarrow> text)
      in if \<not> str_contains bot_token text
         then \<lparr>normal_text = normal, calls = []\<rparr>
         else
           (let match_results = func_call_regex_findall text
            in case detect_loop loads parse_base_json match_results [] of
                 Inr found \<Rightarrow> \<lparr>normal_text = normal, calls = found\<rparr>
               | Inl e \<Rightarrow> \<lparr>normal_text = text, calls = []\<rparr>))"

section \<open>Incremental extraction: \<open>parse_streaming_increment\<close>\<close>

text \<open>
  The branches of the \<open>try\<close> block return the detector state as mutated so far together
  with either the exception that left the block or the result.
\<close>

definition empty_result :: streaming_parse_result where
  "empty_result = \<lparr>normal_text = [], calls = []\<rparr>"

text \<open>Lines 137-175: a closing delimiter was found and the interior was decoded.\<close>

definition complete_call ::
  "(json \<Rightarrow> string) \<Rightarrow> detector_state \<Rightarrow> string \<Rightarrow> nat \<Rightarrow> json
     \<Rightarrow> detector_state \<times> (exn + streaming_parse_result)" where
  "complete_call dumps s current_text end_idx func_call_json =
     (case py_get func_call_json ''name'' JNull of
        Inl e \<Rightarrow> (s, Inl e)
      | Inr func_name \<Rightarrow>
     (case py_get func_call_json ''arguments'' (JObj []) of
        Inl e \<Rightarrow> (s, Inl e)
      | Inr func_args \<Rightarrow>
     (let s1 = (if current_tool_id s = -1
                then s\<lparr>current_tool_id := 0, prev_tool_call_arr := [],
                       streamed_args_for_tool := [[]]\<rparr>
                else s);
          s2 = s1\<lparr>prev_tool_call_arr :=
                    append_until (prev_tool_call_arr s1) (current_tool_id s1) []\<rparr>;
          s3 = s2\<lparr>streamed_args_for_tool :=
                    append_until (streamed_args_for_tool s2) (current_tool_id s2) []\<rparr>
      in case ToolCallItem (current_tool_id s3) func_name
                (if truthy func_args then dumps func_args else []) of
           Inl e \<Rightarrow> (s3, Inl e)
         | Inr item \<Rightarrow>
      (case list_set (prev_tool_call_arr s3) (current_tool_id s3)
                [(''name'', func_name), (''arguments'', func_args)] of
           Inl e \<Rightarrow> (s3, Inl e)
         | Inr arr \<Rightarrow>
             (s3\<lparr>prev_tool_call_arr := arr,
                 buffer := drop (end_idx + length eot_token) current_text,
                 current_tool_id := current_tool_id s3 + 1,
                 last_arguments := [],
                 current_tool_name_sent := False\<rparr>,
              Inr \<lparr>normal_text = [], calls = [item]\<rparr>)))))"

text \<open>Lines 205-217: the name is sent once per call.\<close>

definition send_name ::
  "detector_state \<Rightarrow> json
     \<Rightarrow> detector_state \<times> (exn + tool_call_item list)" where
  "send_name s func_name =
     (if \<not> current_tool_name_sent s
      then
        (case ToolCallItem (current_tool_id s) func_name [] of
           Inl e \<Rightarrow> (s, Inl e)
         | Inr item \<Rightarrow>
        (let s1 = s\<lparr>current_tool_name_sent := True\<rparr>
         in case list_set (prev_tool_call_arr s1) (current_tool_id s1)
                   [(''name'', func_name), (''arguments'', JObj [])] of
              Inl e \<Rightarrow> (s1, Inl e)
            | Inr arr \<Rightarrow> (s1\<lparr>prev_tool_call_arr := arr\<rparr>, Inr [item])))
      else (s, Inr []))"

text \<open>Lines 219-243: the arguments are sent as the suffix that was not sent before.\<close>

definition send_arguments ::
  "(json \<Rightarrow> string) \<Rightarrow> detector_state \<Rightarrow> json \<Rightarrow> tool_call_item list
     \<Rightarrow> detector_state \<times> (exn + tool_call_item list)" where
  "send_arguments dumps s func_args calls0 =
     (let args_str = (if truthy func_args then dumps func_args else []);
          argument_diff =
            (if prefix (last_arguments s) args_str
             then drop (length (last_arguments s)) args_str
             else args_str)
      in if argument_diff \<noteq> []
         then
           (case ToolCallItem (current_tool_id s) JNull argument_diff of
              Inl e \<Rightarrow> (s, Inl e)
            | Inr item \<Rightarrow>
           (let s1 = s\<lparr>last_arguments := last_arguments s @ argument_diff\<rparr>
            in case list_get (streamed_args_for_tool s1) (current_tool_id s1) of
                 Inl e \<Rightarrow> (s1, Inl e)
               | Inr old \<Rightarrow>
            (case list_set (streamed_args_for_tool s1) (current_tool_id s1)
                    (old @ argument_diff) of
                 Inl e \<Rightarrow> (s1, Inl e)
               | Inr streamed \<Rightarrow>
            (let s2 = s1\<lparr>streamed_args_for_tool := streamed\<rparr>
             in case list_get (prev_tool_call_arr s2) (current_tool_id s2) of
                  Inl e \<Rightarrow> (s2, Inl e)
                | Inr entry \<Rightarrow>
             (case list_set (prev_tool_call_arr s2) (current_tool_id s2)
                     (dict_set entry ''arguments'' func_args) of
                  Inl e \<Rightarrow> (s2, Inl e)
                | Inr arr \<Rightarrow>
                    (s2\<lparr>prev_tool_call_arr := arr\<rparr>, Inr (calls0 @ [item])))))))
         else (s, Inr calls0))"

text \<open>Lines 188-243: no closing delimiter yet, and the text so far is complete JSON.\<close>

definition stream_call ::
  "(json \<Rightarrow> string) \<Rightarrow> detector_state \<Rightarrow> json
     \<Rightarrow> detector_state \<times> (exn + streaming_parse_result)" where
  "stream_call dumps s func_call_json =
     (case py_get func_call_json ''name'' JNull of
        Inl e \<Rightarrow> (s, Inl e)
      | Inr func_name \<Rightarrow>
     (case py_get func_call_json ''arguments'' (JObj []) of
        Inl e \<Rightarrow> (s, Inl e)
      | Inr func_args \<Rightarrow>
     (let s1 = (if current_tool_id s = -1
                then s\<lparr>current_tool_id := 0, prev_tool_call_arr := [],
                       streamed_args_for_tool := [[]],
                       current_tool_name_sent := False\<rparr>
                else s);
          s2 = s1\<lparr>prev_tool_call_arr :=
                    append_until (prev_tool_call_arr s1) (current_tool_id s1) []\<rparr>;
          s3 = s2\<lparr>streamed_args_for_tool :=
                    append_until (streamed_args_for_tool s2) (current_tool_id s2) []\<rparr>
      in case send_name s3 func_name of
           (s4, Inl e) \<Rightarrow> (s4, Inl e)
         | (s4, Inr calls0) \<Rightarrow>
      (case send_arguments dumps s4 func_args calls0 of
           (s5, Inl e) \<Rightarrow> (s5, Inl e)
         | (s5, Inr calls1) \<Rightarrow> (s5, Inr \<lparr>normal_text = [], calls = calls1\<rparr>)))))"

text \<open>
  Lines 121-248, the body of the \<open>try\<close>. A \<open>JSONDecodeError\<close> of \<open>json.loads\<close> is caught
  inside (\<open>pass\<close>, then the \<open>return\<close> of line 248); every other exception leaves the block.
\<close>

definition try_block ::
  "(string \<Rightarrow> exn + json) \<Rightarrow> (json \<Rightarrow> string) \<Rightarrow> detector_state \<Rightarrow> string
     \<Rightarrow> detector_state \<times> (exn + streaming_parse_result)" where
  "try_block loads dumps s current_text =
     (case str_find bot_token current_text of
        None \<Rightarrow> (s, Inr empty_result)
      | Some start_idx \<Rightarrow>
     (case str_find_from eot_token current_text start_idx of
        Some end_idx \<Rightarrow>
          (let json_content =
                 strip (slice current_text (start_idx + length bot_token) end_idx)
           in case loads json_content of
                Inl JSONDecodeError \<Rightarrow> (s, Inr empty_result)
              | Inl e \<Rightarrow> (s, Inl e)
              | Inr func_call_json \<Rightarrow>
                  complete_call dumps s current_text end_idx func_call_json)
      | None \<Rightarrow>
          (let json_start = start_idx + length bot_token;
               partial_json = strip (drop json_start current_text)
           in if partial_json \<noteq> [] \<and> is_complete_json loads partial_json
              then
                (case loads partial_json of
                   Inl JSONDecodeError \<Rightarrow> (s, Inr empty_result)
                 | Inl e \<Rightarrow> (s, Inl e)
                 | Inr func_call_json \<Rightarrow> stream_call dumps s func_call_json)
              else (s, Inr empty_result))))"

text \<open>
  \<open>parse_streaming_increment(new_text, tools)\<close>: the state before the call and the
  fragment, to the state after the call and the result. \<open>loads\<close> and \<open>dumps\<close> are
  \<open>json.loads\<close> and \<open>json.dumps\<close>.
\<close>

definition parse_streaming_increment ::
  "(string \<Rightarrow> exn + json) \<Rightarrow> (json \<Rightarrow> string) \<Rightarrow> detector_state \<Rightarrow> string
     \<Rightarrow> detector_state \<times> streaming_parse_result" where
  "parse_streaming_increment loads dumps s new_text =
     (let s0 = s\<lparr>buffer := buffer s @ new_text\<rparr>;
          current_text = buffer s0;
          has_tool_call = str_contains bot_token current_text
      in if \<not> has_tool_call
         then
           (s0\<lparr>buffer := []\<rparr>,
            \<lparr>normal_text =
               (if str_contains eot_token new_text
                then str_replace eot_token [] new_text else new_text),
             calls = []\<rparr>)
         else
           (case try_block loads dumps s0 current_text of
              (s1, Inr result) \<Rightarrow> (s1, result)
            | (s1, Inl e) \<Rightarrow> (s1, \<lparr>normal_text = current_text, calls = []\<rparr>)))"

text \<open>
  An incremental session: the caller feeds the fragments in order to one detector and
  collects the result of every step.
\<close>

fun run_session ::
  "(string \<Rightarrow> exn + json) \<Rightarrow> (json \<Rightarrow> string) \<Rightarrow> detector_state \<Rightarrow> string list
     \<Rightarrow> detector_state \<times> streaming_parse_result list" where
  "run_session loads dumps s [] = (s, [])"
| "run_session loads dumps s (fragment # rest) =
     (case parse_streaming_increment loads dumps s fragment of
        (s1, r) \<Rightarrow>
          (case run_session loads dumps s1 rest of (s2, rs) \<Rightarrow> (s2, r # rs)))"

definition session_calls :: "streaming_parse_result list \<Rightarrow> tool_call_item list" where
  "session_calls rs = concat (map calls rs)"

section \<open>The JSON library on a fragment of JSON\<close>

text \<open>
  \<open>json.loads\<close> and \<open>json.dumps\<close> are parameters of the two extractors. For running them
  on concrete texts, this section gives the two functions on a fragment of JSON: objects,
  arrays, strings without escape sequences, integers, \<open>true\<close>, \<open>false\<close> and \<open>null\<close>.
  Outside the fragment (escape sequences, fractions and exponents, \<open>NaN\<close> and
  \<open>Infinity\<close>) \<open>loads_basic\<close> reports a decode error, and \<open>dumps_basic\<close> is not
  specified on floats. The scanner takes fuel; the length of the text is always enough.
\<close>

definition json_ws :: "char \<Rightarrow> bool" where
  "json_ws c = (c = CHR 0x20 \<or> c = CHR 0x09 \<or> c = CHR 0x0A \<or> c = CHR 0x0D)"

definition skip_ws :: "string \<Rightarrow> string" where
  "skip_ws cs = dropWhile json_ws cs"

definition is_digit :: "char \<Rightarrow> bool" where
  "is_digit c = (let n = (of_char c :: nat) in 48 \<le> n \<and> n \<le> 57)"

definition digits_value :: "string \<Rightarrow> nat" where
  "digits_value ds = foldl (\<lambda>a c. 10 * a + ((of_char c :: nat) - 48)) 0 ds"

text \<open>An integer literal: \<open>-?(0|[1-9][0-9]*)\<close>, not followed by a fraction or an exponent.\<close>

definition scan_number :: "string \<Rightarrow> (json \<times> string) option" where
  "scan_number cs =
     (let neg = (cs \<noteq> [] \<and> hd cs = CHR ''-'');
          r = (if neg then tl cs else cs)
      in if r = [] \<or> \<not> is_digit (hd r) then None
         else
           (let ds = (if hd r = CHR ''0'' then [hd r] else takeWhile is_digit r);
                rest = drop (length ds) r;
                v = int (digits_value ds)
            in if rest \<noteq> [] \<and> (hd rest = CHR ''.'' \<or> hd rest = CHR ''e'' \<or> hd rest = CHR ''E'')
               then None
               else Some (JInt (if neg then - v else v), rest)))"

text \<open>The rest of a string literal, after its opening quote.\<close>

fun scan_string :: "string \<Rightarrow> (string \<times> string) option" where
  "scan_string [] = None"
| "scan_string (c # cs) =
     (if c = CHR 0x22 then Some ([], cs)
      else if c = CHR 0x5C \<or> (of_char c :: nat) < 32 then None
      else map_option (\<lambda>(str, r). (c # str, r)) (scan_string cs))"

fun scan_value :: "nat \<Rightarrow> string \<Rightarrow> (json \<times> string) option"
  and scan_items :: "nat \<Rightarrow> string \<Rightarrow> json list \<Rightarrow> (json \<times> string) option"
  and scan_members :: "nat \<Rightarrow> string \<Rightarrow> pydict \<Rightarrow> (json \<times> string) option" where
  "scan_value 0 cs = None"
| "scan_value (Suc n) cs =
     (if cs = [] then None
      else if hd cs = CHR 0x22 then
        map_option (\<lambda>(str, r). (JStr str, r)) (scan_string (tl cs))
      else if hd cs = CHR ''{'' then
        (let r = skip_ws (tl cs)
         in if r \<noteq> [] \<and> hd r = CHR ''}'' then Some (JObj [], tl r)
            else scan_members n r [])
      else if hd cs = CHR ''['' then
        (let r = skip_ws (tl cs)
         in if r \<noteq> [] \<and> hd r = CHR '']'' then Some (JArr [], tl r)
            else scan_items n r [])
      else if prefix ''null'' cs then Some (JNull, drop 4 cs)
      else if prefix ''true'' cs then Some (JBool True, drop 4 cs)
      else if prefix ''false'' cs then Some (JBool False, drop 5 cs)
      else scan_number cs)"
| "scan_items 0 cs acc = None"
| "scan_items (Suc n) cs acc =
     (case scan_value n cs of
        None \<Rightarrow> None
      | Some (v, r0) \<Rightarrow>
          (let r = skip_ws r0
           in if r = [] then None
              else if hd r = CHR '']'' then Some (JArr (acc @ [v]), tl r)
              else if hd r = CHR '','' then scan_items n (skip_ws (tl r)) (acc @ [v])
              else None))"
| "scan_members 0 cs acc = None"
| "scan_members (Suc n) cs acc =
     (if cs = [] \<or> hd cs \<noteq> CHR 0x22 then None
      else
        (case scan_string (tl cs) of
           None \<Rightarrow> None
         | Some (key, r0) \<Rightarrow>
             (let r1 = skip_ws r0
              in if r1 = [] \<or> hd r1 \<noteq> CHR '':'' then None
                 else
                   (case scan_value n (skip_ws (tl r1)) of
                      None \<Rightarrow> None
                    | Some (v, r2) \<Rightarrow>
                        (let r3 = skip_ws r2
                         in if r3 = [] then None
                            else if hd r3 = CHR ''}'' then
                              Some (JObj (dict_set acc key v), tl r3)
                            else if hd r3 = CHR '','' then
                              scan_members n (skip_ws (tl r3)) (dict_set acc key v)
                            else None)))))"

definition loads_basic :: "string \<Rightarrow> exn + json" where
  "loads_basic s =
     (case scan_value (Suc (length s)) (skip_ws s) of
        None \<Rightarrow> Inl JSONDecodeError
      | Some (v, r) \<Rightarrow> if skip_ws r = [] then Inr v else Inl JSONDecodeError)"

text \<open>Decimal digits of a natural number.\<close>

fun show_nat :: "nat \<Rightarrow> string" where
  "show_nat n =
     (if n < 10 then [char_of (48 + n)]
      else show_nat (n div 10) @ [char_of (48 + n mod 10)])"

declare show_nat.simps [simp del]

definition show_int :: "int \<Rightarrow> string" where
  "show_int i = (if i < 0 then CHR ''-'' # show_nat (nat (- i)) else show_nat (nat i))"

definition hex_digit :: "nat \<Rightarrow> char" where
  "hex_digit n = (if n < 10 then char_of (48 + n) else char_of (87 + n))"

text \<open>\<open>json.dumps\<close> with its defaults: \<open>ensure_ascii\<close>, separators \<open>", "\<close> and \<open>": "\<close>.\<close>

definition escape_char :: "char \<Rightarrow> string" where
  "escape_char c =
     (let n = (of_char c :: nat)
      in if c = CHR 0x22 then [CHR 0x5C, CHR 0x22]
         else if c = CHR 0x5C then [CHR 0x5C, CHR 0x5C]
         else if n = 10 then [CHR 0x5C, CHR ''n'']
         else if n = 13 then [CHR 0x5C, CHR ''r'']
         else if n = 9 then [CHR 0x5C, CHR ''t'']
         else if n = 8 then [CHR 0x5C, CHR ''b'']
         else if n = 12 then [CHR 0x5C, CHR ''f'']
         else if 32 \<le> n \<and> n \<le> 126 then [c]
         else [CHR 0x5C, CHR ''u'', CHR ''0'', CHR ''0'',
               hex_digit (n div 16), hex_digit (n mod 16)])"

definition dumps_str :: "string \<Rightarrow> string" where
  "dumps_str s = CHR 0x22 # concat (map escape_char s) @ [CHR 0x22]"

fun dumps_basic :: "json \<Rightarrow> string"
  and dumps_items :: "json list \<Rightarrow> string"
  and dumps_members :: "pydict \<Rightarrow> string" where
  "dumps_basic JNull = ''null''"
| "dumps_basic (JBool b) = (if b then ''true'' else ''false'')"
| "dumps_basic (JInt i) = show_int i"
| "dumps_basic (JFloat w) = undefined"
| "dumps_basic (JStr s) = dumps_str s"
| "dumps_basic (JArr xs) = ''['' @ dumps_items xs @ '']''"
| "dumps_basic (JObj kvs) = ''{'' @ dumps_members kvs @ ''}''"
| "dumps_items [] = []"
| "dumps_items [x] = dumps_basic x"
| "dumps_items (x # y # xs) = dumps_basic x @ '', '' @ dumps_items (y # xs)"
| "dumps_members [] = []"
| "dumps_members [(k, v)] = dumps_str k @ '': '' @ dumps_basic v"
| "dumps_members ((k, v) # kv # kvs) =
     dumps_str k @ '': '' @ dumps_basic v @ '', '' @ dumps_members (kv # kvs)"

text \<open>
  Modelled from the spec: \<open>parse_base_json\<close> of the base class, which is not among the
  sources. Section 4.2: each region's name/arguments pair is appended to the call list of
  the result; section 3: the parameter text of an item is the JSON-encoded arguments
  object. The index the helper gives an item is not fixed by the caller: it is \<open>ix\<close> here.
  Checking the name against the tool catalogue is outside the scope of the specification.
\<close>

definition parse_base_json_spec ::
  "int \<Rightarrow> (json \<Rightarrow> string) \<Rightarrow> json \<Rightarrow> exn + tool_call_item list" where
  "parse_base_json_spec ix dumps action =
     (case py_get action ''name'' JNull of
        Inl e \<Rightarrow> Inl e
      | Inr nm \<Rightarrow>
     (case py_get action ''parameters'' (JObj []) of
        Inl e \<Rightarrow> Inl e
      | Inr args \<Rightarrow>
     (case ToolCallItem ix nm (dumps args) of
        Inl e \<Rightarrow> Inl e
      | Inr item \<Rightarrow> Inr [item])))"

section \<open>Predicates used in the statements\<close>

text \<open>
  The processing of one region in the loop of \<open>detect_and_parse\<close> raises: the interior is
  not valid JSON, or the decoded value has no \<open>get\<close>, or \<open>parse_base_json\<close> raises.
\<close>

definition region_raises ::
  "(string \<Rightarrow> exn + json) \<Rightarrow> (json \<Rightarrow> exn + tool_call_item list) \<Rightarrow> string \<Rightarrow> bool" where
  "region_raises loads parse_base_json match_result =
     (case loads (strip match_result) of
        Inl e \<Rightarrow> True
      | Inr func_call_json \<Rightarrow>
     (case py_get func_call_json ''name'' JNull of
        Inl e \<Rightarrow> True
      | Inr func_name \<Rightarrow>
     (case py_get func_call_json ''arguments'' (JObj []) of
        Inl e \<Rightarrow> True
      | Inr func_args \<Rightarrow>
     (case parse_base_json (JObj [(''name'', func_name), (''parameters'', func_args)]) of
        Inl e \<Rightarrow> True
      | Inr items \<Rightarrow> False))))"

text \<open>
  The step consumes a call's closing delimiter: the text holds an opening delimiter, a
  closing delimiter after it, the stripped interior decodes to a dict, and the item can
  be built from its name (lines 129-159).
\<close>

definition closes_call :: "(string \<Rightarrow> exn + json) \<Rightarrow> string \<Rightarrow> bool" where
  "closes_call loads current_text =
     (case str_find bot_token current_text of
        None \<Rightarrow> False
      | Some start_idx \<Rightarrow>
     (case str_find_from eot_token current_text start_idx of
        None \<Rightarrow> False
      | Some end_idx \<Rightarrow>
     (case loads (strip (slice current_text (start_idx + length bot_token) end_idx)) of
        Inr (JObj kvs) \<Rightarrow>
          name_ok (case map_of kvs ''name'' of Some v \<Rightarrow> v | None \<Rightarrow> JNull)
      | _ \<Rightarrow> False)))"

text \<open>
  The step takes the streaming branch and finds complete JSON: the text holds an opening
  delimiter, no closing delimiter after it, and the stripped text after the opening
  delimiter is not empty and decodes (lines 180-186).
\<close>

definition streams_early :: "(string \<Rightarrow> exn + json) \<Rightarrow> string \<Rightarrow> bool" where
  "streams_early loads current_text =
     (case str_find bot_token current_text of
        None \<Rightarrow> False
      | Some start_idx \<Rightarrow>
     (case str_find_from eot_token current_text start_idx of
        Some end_idx \<Rightarrow> False
      | None \<Rightarrow>
          (let partial_json = strip (drop (start_idx + length bot_token) current_text)
           in partial_json \<noteq> [] \<and> is_complete_json loads partial_json)))"

text \<open>
  No fragment of the list ends where the text fed so far (\<open>fed\<close>, then each fragment
  appended) makes a step find complete JSON before the closing delimiter has arrived.
\<close>

fun never_streams :: "(string \<Rightarrow> exn + json) \<Rightarrow> string \<Rightarrow> string list \<Rightarrow> bool" where
  "never_streams loads fed [] = True"
| "never_streams loads fed (fragment # rest) =
     (\<not> streams_early loads (fed @ fragment) \<and> never_streams loads (fed @ fragment) rest)"

section \<open>Basic facts\<close>

lemma ToolCallItem_raises:
  "ToolCallItem idx nm params = Inl e \<Longrightarrow> e = ValidationError \<and> \<not> name_ok nm"
  by (auto simp: ToolCallItem_def split: if_splits)

lemma ToolCallItem_returns:
  "ToolCallItem idx nm params = Inr item
     \<Longrightarrow> item = \<lparr>tool_index = idx, name = nm, parameters = params\<rparr> \<and> name_ok nm"
  by (auto simp: ToolCallItem_def split: if_splits)

lemma ToolCallItem_ok:
  "name_ok nm
     \<Longrightarrow> ToolCallItem idx nm params = Inr \<lparr>tool_index = idx, name = nm, parameters = params\<rparr>"
  by (simp add: ToolCallItem_def)

lemma ToolCallItem_bad:
  "\<not> name_ok nm \<Longrightarrow> ToolCallItem idx nm params = Inl ValidationError"
  by (simp add: ToolCallItem_def)

lemma ToolCallItem_null:
  "ToolCallItem idx JNull params = Inr \<lparr>tool_index = idx, name = JNull, parameters = params\<rparr>"
  by (simp add: ToolCallItem_def name_ok_def)

lemma str_replace_absent:
  "\<not> str_contains pat s \<Longrightarrow> str_replace pat new s = s"
  by (induction s) (auto simp: str_contains_def split: if_splits)

lemma no_bot_step:
  assumes "\<not> str_contains bot_token (buffer s @ new_text)"
  shows "parse_streaming_increment loads dumps s new_text =
           (s\<lparr>buffer := []\<rparr>,
            \<lparr>normal_text = str_replace eot_token [] new_text, calls = []\<rparr>)"
  using assms by (simp add: parse_streaming_increment_def Let_def str_replace_absent)

section \<open>Text without an opening delimiter\<close>

text \<open>
  C7, as the code has it. For a text without an opening delimiter, one-shot extraction
  returns the text unchanged with no calls. Incremental extraction in a fresh session
  returns the text with every closing delimiter removed, with no calls; that is the text
  itself when it holds no closing delimiter.
\<close>

theorem no_delimiter_passthrough:
  assumes "\<not> str_contains bot_token t"
  shows "detect_and_parse loads parse_base_json t = \<lparr>normal_text = t, calls = []\<rparr>
       \<and> snd (parse_streaming_increment loads dumps init_state t) =
           \<lparr>normal_text = str_replace eot_token [] t, calls = []\<rparr>
       \<and> (\<not> str_contains eot_token t \<longrightarrow> str_replace eot_token [] t = t)"
proof -
  from assms have "str_find bot_token t = None"
    by (simp add: str_contains_def)
  then have one_shot:
    "detect_and_parse loads parse_base_json t = \<lparr>normal_text = t, calls = []\<rparr>"
    using assms by (simp add: detect_and_parse_def)
  have incremental:
    "snd (parse_streaming_increment loads dumps init_state t) =
       \<lparr>normal_text = str_replace eot_token [] t, calls = []\<rparr>"
    using assms by (simp add: no_bot_step init_state_def)
  show ?thesis
    using one_shot incremental by (simp add: str_replace_absent)
qed

theorem no_delimiter_passthrough_witness:
  "\<not> str_contains bot_token ''hello </dots_function_call>world''
   \<and> detect_and_parse loads_basic (parse_base_json_spec 0 dumps_basic)
         ''hello </dots_function_call>world'' =
       \<lparr>normal_text = ''hello </dots_function_call>world'', calls = []\<rparr>
   \<and> snd (parse_streaming_increment loads_basic dumps_basic init_state
         ''hello </dots_function_call>world'') =
       \<lparr>normal_text = ''hello world'', calls = []\<rparr>"
proof -
  have h: "\<not> str_contains bot_token ''hello </dots_function_call>world''"
    by code_simp
  have r: "str_replace eot_token [] ''hello </dots_function_call>world'' = ''hello world''"
    by code_simp
  show ?thesis
    using h r
      no_delimiter_passthrough [OF h, of loads_basic "parse_base_json_spec 0 dumps_basic"
        dumps_basic]
    by simp
qed

text \<open>
  C7 as stated fails for incremental extraction: a closing delimiter in a text without an
  opening delimiter is removed from the returned plain text.
\<close>

theorem no_delimiter_passthrough_counterexample:
  "\<not> str_contains bot_token ''a</dots_function_call>b''
   \<and> normal_text (snd (parse_streaming_increment loads_basic dumps_basic init_state
         ''a</dots_function_call>b'')) = ''ab''
   \<and> normal_text (snd (parse_streaming_increment loads_basic dumps_basic init_state
         ''a</dots_function_call>b'')) \<noteq> ''a</dots_function_call>b''"
  by code_simp

section \<open>One-shot extraction\<close>

lemma detect_loop_raises:
  "\<exists>m \<in> set ms. region_raises loads pbj m \<Longrightarrow> \<exists>e. detect_loop loads pbj ms acc = Inl e"
proof (induction ms arbitrary: acc)
  case Nil
  then show ?case by simp
next
  case (Cons m ms)
  show ?case
  proof (cases "region_raises loads pbj m")
    case True
    then show ?thesis
      by (auto simp: region_raises_def split: sum.splits)
  next
    case False
    with Cons.prems have "\<exists>m \<in> set ms. region_raises loads pbj m" by simp
    from Cons.IH [OF this] show ?thesis
      by (auto split: sum.splits)
  qed
qed

lemma findall_nonempty_has_bot:
  "func_call_regex_findall t \<noteq> [] \<Longrightarrow> str_contains bot_token t"
  by (subst (asm) func_call_regex_findall.simps) (auto simp: str_contains_def split: option.splits)

text \<open>
  C5. When the processing of any delimited region raises (its interior is not valid JSON,
  or a later step on it raises), \<open>detect_and_parse\<close> returns the original text as plain
  text and no call at all, whatever the regions before it produced.
\<close>

theorem one_shot_all_or_nothing:
  assumes "\<exists>m \<in> set (func_call_regex_findall t). region_raises loads pbj m"
  shows "detect_and_parse loads pbj t = \<lparr>normal_text = t, calls = []\<rparr>"
proof -
  from assms have "func_call_regex_findall t \<noteq> []" by auto
  then have has: "str_contains bot_token t" by (rule findall_nonempty_has_bot)
  from detect_loop_raises [OF assms, of "[]"]
  obtain e where "detect_loop loads pbj (func_call_regex_findall t) [] = Inl e" ..
  with has show ?thesis by (simp add: detect_and_parse_def Let_def)
qed

theorem one_shot_all_or_nothing_witness:
  \<open>region_raises loads_basic (parse_base_json_spec 0 dumps_basic) ''not json''
   \<and> func_call_regex_findall
        ''<dots_function_call>{"name":"f"}</dots_function_call><dots_function_call>not json</dots_function_call>''
       = [''{"name":"f"}'', ''not json'']
   \<and> detect_and_parse loads_basic (parse_base_json_spec 0 dumps_basic)
        ''<dots_function_call>{"name":"f"}</dots_function_call><dots_function_call>not json</dots_function_call>''
       = \<lparr>normal_text = ''<dots_function_call>{"name":"f"}</dots_function_call><dots_function_call>not json</dots_function_call>'', calls = []\<rparr>\<close>
proof -
  have r: \<open>region_raises loads_basic (parse_base_json_spec 0 dumps_basic) ''not json''\<close>
    by code_simp
  have f: \<open>func_call_regex_findall
        ''<dots_function_call>{"name":"f"}</dots_function_call><dots_function_call>not json</dots_function_call>''
       = [''{"name":"f"}'', ''not json'']\<close>
    by code_simp
  have h: \<open>\<exists>m \<in> set (func_call_regex_findall
        ''<dots_function_call>{"name":"f"}</dots_function_call><dots_function_call>not json</dots_function_call>'').
        region_raises loads_basic (parse_base_json_spec 0 dumps_basic) m\<close>
    using r f by simp
  show ?thesis
    using r f one_shot_all_or_nothing [OF h] by simp
qed

lemma detect_and_parse_single:
  assumes "str_find bot_token t = Some i"
    and "strip (take i t) = before"
    and "func_call_regex_findall t = [m]"
    and "loads (strip m) = Inr j"
    and "py_get j ''name'' JNull = Inr nm"
    and "py_get j ''arguments'' (JObj []) = Inr args"
    and "pbj (JObj [(''name'', nm), (''parameters'', args)]) = Inr items"
  shows "detect_and_parse loads pbj t = \<lparr>normal_text = before, calls = items\<rparr>"
  using assms by (simp add: detect_and_parse_def str_contains_def)

section \<open>Facts about the branches of the incremental extractor\<close>

lemma py_get_raises: "py_get j k d = Inl e \<Longrightarrow> e = AttributeError"
  by (cases j) (simp_all add: py_get_def)

lemma py_get_obj:
  "py_get (JObj kvs) k d = Inr (case map_of kvs k of Some v \<Rightarrow> v | None \<Rightarrow> d)"
  by (simp add: py_get_def)

lemma py_get_not_obj: "(\<forall>kvs. j \<noteq> JObj kvs) \<Longrightarrow> py_get j k d = Inl AttributeError"
  by (cases j) (simp_all add: py_get_def)

lemma list_set_raises: "list_set xs i v = Inl e \<Longrightarrow> e = IndexError"
  by (auto simp: list_set_def split: option.splits)

lemma list_get_raises: "list_get xs i = Inl e \<Longrightarrow> e = IndexError"
  by (auto simp: list_get_def split: option.splits)

lemma complete_call_raises:
  "complete_call dumps s cur end_idx j = (s1, Inl e)
     \<Longrightarrow> e \<noteq> JSONDecodeError \<and> buffer s1 = buffer s"
  by (auto simp: complete_call_def Let_def split: sum.splits if_splits
      dest: py_get_raises list_set_raises ToolCallItem_raises)

lemma complete_call_returns:
  "complete_call dumps s cur end_idx j = (s1, Inr r) \<Longrightarrow> normal_text r = []"
  by (auto simp: complete_call_def Let_def split: sum.splits if_splits)

lemma send_name_outcome:
  "send_name s nm = (s1, x)
     \<Longrightarrow> buffer s1 = buffer s \<and> (\<forall>e. x = Inl e \<longrightarrow> e \<noteq> JSONDecodeError)"
  by (auto simp: send_name_def Let_def split: sum.splits if_splits
      dest: list_set_raises ToolCallItem_raises)

lemma send_arguments_outcome:
  "send_arguments dumps s args c0 = (s1, x)
     \<Longrightarrow> buffer s1 = buffer s \<and> (\<forall>e. x = Inl e \<longrightarrow> e \<noteq> JSONDecodeError)"
  by (auto simp: send_arguments_def Let_def ToolCallItem_null split: sum.splits if_splits
      dest: list_set_raises list_get_raises)

lemma stream_call_raises:
  assumes "stream_call dumps s j = (s1, Inl e)"
  shows "e \<noteq> JSONDecodeError \<and> buffer s1 = buffer s"
  using assms
  by (auto simp: stream_call_def Let_def split: sum.splits if_splits prod.splits
      dest: py_get_raises dest!: send_name_outcome send_arguments_outcome)

lemma stream_call_returns:
  "stream_call dumps s j = (s1, Inr r) \<Longrightarrow> normal_text r = []"
  by (auto simp: stream_call_def Let_def split: sum.splits if_splits prod.splits)

lemma try_block_raises:
  assumes "try_block loads dumps s cur = (s1, Inl e)"
  shows "e \<noteq> JSONDecodeError \<and> buffer s1 = buffer s"
  using assms
  by (auto simp: try_block_def Let_def empty_result_def
      split: option.splits sum.splits exn.splits if_splits
      dest: complete_call_raises stream_call_raises)

lemma try_block_returns:
  "try_block loads dumps s cur = (s1, Inr r) \<Longrightarrow> normal_text r = []"
  by (auto simp: try_block_def Let_def empty_result_def
      split: option.splits sum.splits exn.splits if_splits
      dest: complete_call_returns stream_call_returns)


lemma append_until_eq:
  "append_until xs i d = xs @ replicate (nat (i + 1 - int (length xs))) d"
proof (induction xs i d rule: append_until.induct)
  case (1 xs i d)
  show ?case
  proof (cases "int (length xs) \<le> i")
    case True
    then have "nat (i + 1 - int (length xs)) = Suc (nat (i + 1 - int (length (xs @ [d]))))"
      by simp
    with True 1 show ?thesis
      by (subst append_until.simps) (simp add: replicate_app_Cons_same)
  next
    case False
    then show ?thesis
      by (subst append_until.simps) simp
  qed
qed

lemma append_until_length [simp]:
  "length (append_until xs i d) = max (length xs) (nat (i + 1))"
  by (simp add: append_until_eq)

lemma append_until_nonempty [simp]: "0 \<le> i \<Longrightarrow> append_until xs i d \<noteq> []"
proof
  assume "0 \<le> i" and "append_until xs i d = []"
  then have "length (append_until xs i d) = 0" by simp
  with \<open>0 \<le> i\<close> show False by (simp del: length_0_conv)
qed

lemma list_set_in_range:
  "0 \<le> i \<Longrightarrow> nat i < length xs \<Longrightarrow> list_set xs i v = Inr (xs[nat i := v])"
  by (auto simp: list_set_def py_index_def)

lemma list_get_in_range:
  "0 \<le> i \<Longrightarrow> nat i < length xs \<Longrightarrow> list_get xs i = Inr (xs ! nat i)"
  by (auto simp: list_get_def py_index_def)

lemma list_set_append_until:
  "0 \<le> i \<Longrightarrow> list_set (append_until xs i d) i v = Inr ((append_until xs i d)[nat i := v])"
  by (rule list_set_in_range) simp_all

lemma complete_call_obj:
  assumes "-1 \<le> current_tool_id s"
    and "name_ok (case map_of kvs ''name'' of Some v \<Rightarrow> v | None \<Rightarrow> JNull)"
  shows "\<exists>s1. complete_call dumps s cur e (JObj kvs) =
           (s1, Inr \<lparr>normal_text = [],
                    calls = [\<lparr>tool_index = max 0 (current_tool_id s),
                              name = (case map_of kvs ''name'' of Some v \<Rightarrow> v | None \<Rightarrow> JNull),
                              parameters =
                                (let args = (case map_of kvs ''arguments'' of
                                               Some v \<Rightarrow> v | None \<Rightarrow> JObj [])
                                 in if truthy args then dumps args else [])\<rparr>]\<rparr>)
         \<and> buffer s1 = drop (e + length eot_token) cur
         \<and> current_tool_id s1 = max 0 (current_tool_id s) + 1
         \<and> last_arguments s1 = []
         \<and> \<not> current_tool_name_sent s1
         \<and> nat (max 0 (current_tool_id s)) < length (prev_tool_call_arr s1)
         \<and> prev_tool_call_arr s1 ! nat (max 0 (current_tool_id s)) =
             [(''name'', case map_of kvs ''name'' of Some v \<Rightarrow> v | None \<Rightarrow> JNull),
              (''arguments'', case map_of kvs ''arguments'' of Some v \<Rightarrow> v | None \<Rightarrow> JObj [])]"
proof (cases "current_tool_id s = -1")
  case True
  then show ?thesis
    using assms(2)
    by (simp add: complete_call_def py_get_obj Let_def list_set_append_until ToolCallItem_ok)
next
  case False
  with assms have nn: "0 \<le> current_tool_id s" by simp
  then have m: "max 0 (current_tool_id s) = current_tool_id s" by simp
  show ?thesis
    using False nn assms(2)
    by (simp add: complete_call_def py_get_obj Let_def list_set_append_until m ToolCallItem_ok)
qed

lemma complete_call_bad_name:
  assumes "\<not> name_ok (case map_of kvs ''name'' of Some v \<Rightarrow> v | None \<Rightarrow> JNull)"
  shows "\<exists>s1. complete_call dumps s cur e (JObj kvs) = (s1, Inl ValidationError)
         \<and> buffer s1 = buffer s
         \<and> current_tool_id s1 = (if current_tool_id s = - 1 then 0 else current_tool_id s)"
  using assms
  by (simp add: complete_call_def py_get_obj Let_def ToolCallItem_bad)

text \<open>
  A whole call whose name is the number \<open>1\<close>, in a fresh session: the tracking lists are
  set up and the tool index moves to \<open>0\<close>, then the item cannot be built; the step returns
  the buffer as plain text, consumes nothing and does not move the index further.
\<close>

lemma non_string_name_example:
  \<open>parse_streaming_increment loads_basic dumps_basic init_state ''<dots_function_call>{"name":1}</dots_function_call>'' =
     (init_state\<lparr>buffer := ''<dots_function_call>{"name":1}</dots_function_call>'', current_tool_id := 0, prev_tool_call_arr := [[]],
                  streamed_args_for_tool := [[]]\<rparr>,
      \<lparr>normal_text = ''<dots_function_call>{"name":1}</dots_function_call>'', calls = []\<rparr>)\<close>
  by code_simp

section \<open>The fail-safe return of the incremental extractor\<close>

text \<open>
  A decoded value that is not a dict makes the \<open>try\<close> block raise \<open>AttributeError\<close>, in
  both branches, before the state is touched.
\<close>

lemma non_object_raises_streaming:
  assumes "str_find bot_token cur = Some i"
    and "str_find_from eot_token cur i = None"
    and "strip (drop (i + length bot_token) cur) \<noteq> []"
    and "loads (strip (drop (i + length bot_token) cur)) = Inr j"
    and "\<forall>kvs. j \<noteq> JObj kvs"
  shows "try_block loads dumps s cur = (s, Inl AttributeError)"
  using assms
  by (simp add: try_block_def is_complete_json_def stream_call_def py_get_not_obj)

lemma non_object_raises_complete:
  assumes "str_find bot_token cur = Some i"
    and "str_find_from eot_token cur i = Some e"
    and "loads (strip (slice cur (i + length bot_token) e)) = Inr j"
    and "\<forall>kvs. j \<noteq> JObj kvs"
  shows "try_block loads dumps s cur = (s, Inl AttributeError)"
  using assms
  by (simp add: try_block_def complete_call_def py_get_not_obj)

text \<open>
  C8. When the buffer holds an opening delimiter and an exception leaves the \<open>try\<close>
  block (it is never a JSON decode error, which is caught inside), the step returns
  normally: the whole buffered text as plain text and no calls. The buffer keeps the text.
\<close>

theorem fail_safe:
  assumes "str_contains bot_token (buffer s @ new_text)"
    and "try_block loads dumps (s\<lparr>buffer := buffer s @ new_text\<rparr>) (buffer s @ new_text)
           = (s1, Inl e)"
  shows "parse_streaming_increment loads dumps s new_text =
           (s1, \<lparr>normal_text = buffer s @ new_text, calls = []\<rparr>)
       \<and> e \<noteq> JSONDecodeError
       \<and> buffer s1 = buffer s @ new_text"
proof -
  from try_block_raises [OF assms(2)]
  have "e \<noteq> JSONDecodeError" and "buffer s1 = buffer s @ new_text" by simp_all
  moreover have "parse_streaming_increment loads dumps s new_text =
           (s1, \<lparr>normal_text = buffer s @ new_text, calls = []\<rparr>)"
    using assms by (simp add: parse_streaming_increment_def)
  ultimately show ?thesis by simp
qed

theorem fail_safe_witness:
  "str_contains bot_token (buffer init_state @ ''<dots_function_call>[1]'')
   \<and> try_block loads_basic dumps_basic
        (init_state\<lparr>buffer := buffer init_state @ ''<dots_function_call>[1]''\<rparr>)
        (buffer init_state @ ''<dots_function_call>[1]'')
       = (init_state\<lparr>buffer := ''<dots_function_call>[1]''\<rparr>, Inl AttributeError)
   \<and> parse_streaming_increment loads_basic dumps_basic init_state ''<dots_function_call>[1]'' =
       (init_state\<lparr>buffer := ''<dots_function_call>[1]''\<rparr>,
        \<lparr>normal_text = ''<dots_function_call>[1]'', calls = []\<rparr>)"
proof -
  have b: "buffer init_state @ ''<dots_function_call>[1]'' = ''<dots_function_call>[1]''"
    by (simp add: init_state_def)
  have h1: "str_contains bot_token (buffer init_state @ ''<dots_function_call>[1]'')"
    by code_simp
  have h2: "try_block loads_basic dumps_basic
        (init_state\<lparr>buffer := buffer init_state @ ''<dots_function_call>[1]''\<rparr>)
        (buffer init_state @ ''<dots_function_call>[1]'')
       = (init_state\<lparr>buffer := ''<dots_function_call>[1]''\<rparr>, Inl AttributeError)"
    by code_simp
  show ?thesis
    using h1 h2 fail_safe [OF h1 h2] by (simp only: b simp_thms)
qed

section \<open>Text left in the buffer\<close>

text \<open>
  C10, as the code has it. A step that finds no opening delimiter in the combined buffer
  clears the buffer and returns only the newest fragment, closing delimiters removed, so
  text buffered before is lost from the output. A step that finds an opening delimiter
  returns empty plain text, except for the fail-safe return after an exception, which
  returns the whole buffered text, residue included.
\<close>

theorem buffered_residue:
  "(\<not> str_contains bot_token (buffer s @ new_text) \<longrightarrow>
      parse_streaming_increment loads dumps s new_text =
        (s\<lparr>buffer := []\<rparr>,
         \<lparr>normal_text = str_replace eot_token [] new_text, calls = []\<rparr>))
   \<and> (str_contains bot_token (buffer s @ new_text) \<longrightarrow>
      (case try_block loads dumps (s\<lparr>buffer := buffer s @ new_text\<rparr>) (buffer s @ new_text) of
         (s1, Inl e) \<Rightarrow>
           parse_streaming_increment loads dumps s new_text =
             (s1, \<lparr>normal_text = buffer s @ new_text, calls = []\<rparr>)
       | (s1, Inr r) \<Rightarrow>
           parse_streaming_increment loads dumps s new_text = (s1, r) \<and> normal_text r = []))"
proof (cases "str_contains bot_token (buffer s @ new_text)")
  case False
  then show ?thesis by (simp add: no_bot_step)
next
  case True
  obtain s1 x where t: "try_block loads dumps (s\<lparr>buffer := buffer s @ new_text\<rparr>)
      (buffer s @ new_text) = (s1, x)"
    by (cases "try_block loads dumps (s\<lparr>buffer := buffer s @ new_text\<rparr>) (buffer s @ new_text)")
  show ?thesis
  proof (cases x)
    case (Inl e)
    with True t show ?thesis by (simp add: parse_streaming_increment_def)
  next
    case (Inr r)
    with t have "normal_text r = []" by (auto dest: try_block_returns)
    with True t Inr show ?thesis by (simp add: parse_streaming_increment_def)
  qed
qed

theorem buffered_residue_witness:
  "\<not> str_contains bot_token (buffer (init_state\<lparr>buffer := ''after''\<rparr>) @ '' more'')
   \<and> parse_streaming_increment loads_basic dumps_basic (init_state\<lparr>buffer := ''after''\<rparr>) '' more'' =
        (init_state\<lparr>buffer := []\<rparr>, \<lparr>normal_text = '' more'', calls = []\<rparr>)"
proof -
  have h: "\<not> str_contains bot_token (buffer (init_state\<lparr>buffer := ''after''\<rparr>) @ '' more'')"
    by code_simp
  have r: "str_replace eot_token [] '' more'' = '' more''"
    by code_simp
  have u: "(init_state\<lparr>buffer := ''after''\<rparr>)\<lparr>buffer := []\<rparr> = init_state\<lparr>buffer := []\<rparr>"
    by simp
  have "parse_streaming_increment loads_basic dumps_basic (init_state\<lparr>buffer := ''after''\<rparr>) '' more'' =
        ((init_state\<lparr>buffer := ''after''\<rparr>)\<lparr>buffer := []\<rparr>,
         \<lparr>normal_text = str_replace eot_token [] '' more'', calls = []\<rparr>)"
    using h buffered_residue [of "init_state\<lparr>buffer := ''after''\<rparr>" "'' more''" loads_basic dumps_basic]
    by blast
  then have "parse_streaming_increment loads_basic dumps_basic (init_state\<lparr>buffer := ''after''\<rparr>) '' more'' =
        (init_state\<lparr>buffer := []\<rparr>, \<lparr>normal_text = '' more'', calls = []\<rparr>)"
    by (simp only: r u)
  with h show ?thesis by blast
qed

text \<open>
  C10 as stated (residue is never emitted as plain text) fails: after a call followed by
  \<open>after\<close> was consumed, a fragment whose JSON is the number \<open>1\<close> takes the fail-safe
  return, and the plain text of that step starts with the residue \<open>after\<close>.
\<close>

theorem buffered_residue_counterexample:
  \<open>buffer (fst (parse_streaming_increment loads_basic dumps_basic init_state
       ''<dots_function_call>{"name":"f","arguments":{"x":1}}</dots_function_call>after'')) = ''after''
   \<and> normal_text (snd (parse_streaming_increment loads_basic dumps_basic
       (fst (parse_streaming_increment loads_basic dumps_basic init_state
          ''<dots_function_call>{"name":"f","arguments":{"x":1}}</dots_function_call>after''))
       ''<dots_function_call>1'')) = ''after<dots_function_call>1''\<close>
  by code_simp

section \<open>A complete call in the buffer\<close>

text \<open>
  C4, as the code has it. Take a state whose tool index is at least \<open>-1\<close> and in which
  nothing was streamed for the current call (the name was not sent, no arguments were
  sent). When the buffer with the new fragment holds an opening delimiter, a closing
  delimiter after it, and the stripped interior decodes to a JSON object whose name is a
  string or null, the step returns empty plain text and exactly one item. Its index is
  the current tool index, \<open>0\<close> when that was \<open>-1\<close>; its name is the decoded name; its
  parameters are the encoded arguments, or the empty string when the arguments are absent
  or false in Python's sense. The buffer becomes the text after the closing delimiter,
  and the tool index becomes the item's index plus one.
\<close>

theorem complete_call_emission:
  assumes started: "- 1 \<le> current_tool_id s"
    and no_name_yet: "\<not> current_tool_name_sent s"
    and no_arguments_yet: "last_arguments s = []"
    and open_found: "str_find bot_token (buffer s @ new_text) = Some i"
    and close_found: "str_find_from eot_token (buffer s @ new_text) i = Some e"
    and decoded:
      "loads (strip (slice (buffer s @ new_text) (i + length bot_token) e)) = Inr (JObj kvs)"
    and good_name: "name_ok (case map_of kvs ''name'' of Some v \<Rightarrow> v | None \<Rightarrow> JNull)"
  shows "snd (parse_streaming_increment loads dumps s new_text) =
           \<lparr>normal_text = [],
            calls = [\<lparr>tool_index = max 0 (current_tool_id s),
                      name = (case map_of kvs ''name'' of Some v \<Rightarrow> v | None \<Rightarrow> JNull),
                      parameters =
                        (let args = (case map_of kvs ''arguments'' of
                                       Some v \<Rightarrow> v | None \<Rightarrow> JObj [])
                         in if truthy args then dumps args else [])\<rparr>]\<rparr>
       \<and> buffer (fst (parse_streaming_increment loads dumps s new_text)) =
           drop (e + length eot_token) (buffer s @ new_text)
       \<and> current_tool_id (fst (parse_streaming_increment loads dumps s new_text)) =
           max 0 (current_tool_id s) + 1"
proof -
  let ?cur = "buffer s @ new_text"
  let ?s0 = "s\<lparr>buffer := ?cur\<rparr>"
  have id0: "- 1 \<le> current_tool_id ?s0" using started by simp
  from complete_call_obj [OF id0 good_name, of dumps ?cur e]
  obtain s1 where
    c: "complete_call dumps ?s0 ?cur e (JObj kvs) =
           (s1, Inr \<lparr>normal_text = [],
                    calls = [\<lparr>tool_index = max 0 (current_tool_id ?s0),
                              name = (case map_of kvs ''name'' of Some v \<Rightarrow> v | None \<Rightarrow> JNull),
                              parameters =
                                (let args = (case map_of kvs ''arguments'' of
                                               Some v \<Rightarrow> v | None \<Rightarrow> JObj [])
                                 in if truthy args then dumps args else [])\<rparr>]\<rparr>)"
    and b: "buffer s1 = drop (e + length eot_token) ?cur"
    and t: "current_tool_id s1 = max 0 (current_tool_id ?s0) + 1"
    by blast
  have has: "str_contains bot_token ?cur"
    using open_found by (simp add: str_contains_def)
  have "try_block loads dumps ?s0 ?cur = complete_call dumps ?s0 ?cur e (JObj kvs)"
    using open_found close_found decoded by (simp add: try_block_def)
  with c has have "parse_streaming_increment loads dumps s new_text =
      (s1, \<lparr>normal_text = [],
                    calls = [\<lparr>tool_index = max 0 (current_tool_id ?s0),
                              name = (case map_of kvs ''name'' of Some v \<Rightarrow> v | None \<Rightarrow> JNull),
                              parameters =
                                (let args = (case map_of kvs ''arguments'' of
                                               Some v \<Rightarrow> v | None \<Rightarrow> JObj [])
                                 in if truthy args then dumps args else [])\<rparr>]\<rparr>)"
    by (simp add: parse_streaming_increment_def)
  with b t show ?thesis by simp
qed

theorem complete_call_emission_witness:
  \<open>- 1 \<le> current_tool_id init_state
   \<and> \<not> current_tool_name_sent init_state
   \<and> last_arguments init_state = []
   \<and> name_ok (case map_of [(''name'', JStr ''f''), (''arguments'', JObj [(''x'', JInt 1)])] ''name'' of
               Some v \<Rightarrow> v | None \<Rightarrow> JNull)
   \<and> str_find bot_token (buffer init_state @ ''<dots_function_call>{"name":"f","arguments":{"x":1}}</dots_function_call>tail'') = Some 0
   \<and> str_find_from eot_token (buffer init_state @ ''<dots_function_call>{"name":"f","arguments":{"x":1}}</dots_function_call>tail'') 0 = Some 52
   \<and> loads_basic (strip (slice (buffer init_state @ ''<dots_function_call>{"name":"f","arguments":{"x":1}}</dots_function_call>tail'') (0 + length bot_token) 52)) =
       Inr (JObj [(''name'', JStr ''f''), (''arguments'', JObj [(''x'', JInt 1)])])
   \<and> snd (parse_streaming_increment loads_basic dumps_basic init_state ''<dots_function_call>{"name":"f","arguments":{"x":1}}</dots_function_call>tail'') =
       \<lparr>normal_text = [],
        calls = [\<lparr>tool_index = 0, name = JStr ''f'', parameters = ''{"x": 1}''\<rparr>]\<rparr>
   \<and> buffer (fst (parse_streaming_increment loads_basic dumps_basic init_state ''<dots_function_call>{"name":"f","arguments":{"x":1}}</dots_function_call>tail'')) = ''tail''
   \<and> current_tool_id (fst (parse_streaming_increment loads_basic dumps_basic init_state ''<dots_function_call>{"name":"f","arguments":{"x":1}}</dots_function_call>tail'')) = 1\<close>
proof -
  have h1: "- 1 \<le> current_tool_id init_state"
    by code_simp
  have h2: \<open>str_find bot_token (buffer init_state @ ''<dots_function_call>{"name":"f","arguments":{"x":1}}</dots_function_call>tail'') = Some 0\<close>
    by code_simp
  have h3: \<open>str_find_from eot_token (buffer init_state @ ''<dots_function_call>{"name":"f","arguments":{"x":1}}</dots_function_call>tail'') 0 = Some 52\<close>
    by code_simp
  have h4: \<open>loads_basic (strip (slice (buffer init_state @ ''<dots_function_call>{"name":"f","arguments":{"x":1}}</dots_function_call>tail'') (0 + length bot_token) 52)) =
       Inr (JObj [(''name'', JStr ''f''), (''arguments'', JObj [(''x'', JInt 1)])])\<close>
    by code_simp
  have h5: "\<not> current_tool_name_sent init_state"
    by code_simp
  have h6: "last_arguments init_state = []"
    by code_simp
  have h7: "name_ok (case map_of [(''name'', JStr ''f''), (''arguments'', JObj [(''x'', JInt 1)])] ''name'' of
               Some v \<Rightarrow> v | None \<Rightarrow> JNull)"
    by code_simp
  have v1: "max 0 (current_tool_id init_state) = 0"
    by code_simp
  have v2: "(case map_of [(''name'', JStr ''f''), (''arguments'', JObj [(''x'', JInt 1)])] ''name'' of
               Some v \<Rightarrow> v | None \<Rightarrow> JNull) = JStr ''f''"
    by code_simp
  have v3: \<open>(let args = (case map_of [(''name'', JStr ''f''), (''arguments'', JObj [(''x'', JInt 1)])]
                  ''arguments'' of Some v \<Rightarrow> v | None \<Rightarrow> JObj [])
             in if truthy args then dumps_basic args else []) = ''{"x": 1}''\<close>
    by code_simp
  have v4: \<open>drop (52 + length eot_token) (buffer init_state @ ''<dots_function_call>{"name":"f","arguments":{"x":1}}</dots_function_call>tail'') = ''tail''\<close>
    by code_simp
  have v5: "(0::int) + 1 = 1" by simp
  from complete_call_emission [where loads = loads_basic and dumps = dumps_basic,
      OF h1 h5 h6 h2 h3 h4 h7]
  have r: \<open>snd (parse_streaming_increment loads_basic dumps_basic init_state ''<dots_function_call>{"name":"f","arguments":{"x":1}}</dots_function_call>tail'') =
       \<lparr>normal_text = [],
        calls = [\<lparr>tool_index = 0, name = JStr ''f'', parameters = ''{"x": 1}''\<rparr>]\<rparr>
   \<and> buffer (fst (parse_streaming_increment loads_basic dumps_basic init_state ''<dots_function_call>{"name":"f","arguments":{"x":1}}</dots_function_call>tail'')) = ''tail''
   \<and> current_tool_id (fst (parse_streaming_increment loads_basic dumps_basic init_state ''<dots_function_call>{"name":"f","arguments":{"x":1}}</dots_function_call>tail'')) = 1\<close>
    by (simp only: v1 v2 v3 v4 v5)
  from h1 h5 h6 h7 h2 h3 h4 r show ?thesis
    by blast
qed

text \<open>
  C4 as stated fails when the interior is valid JSON but not an object: the number \<open>1\<close>
  between the delimiters gives no item; the step returns the buffer as plain text and
  consumes nothing.
\<close>

theorem complete_call_emission_counterexample:
  \<open>str_find bot_token (buffer init_state @ ''<dots_function_call>1</dots_function_call>'') = Some 0
   \<and> str_find_from eot_token (buffer init_state @ ''<dots_function_call>1</dots_function_call>'') 0
       = Some 21
   \<and> loads_basic (strip (slice (buffer init_state @ ''<dots_function_call>1</dots_function_call>'')
         (0 + length bot_token) 21)) = Inr (JInt 1)
   \<and> parse_streaming_increment loads_basic dumps_basic init_state
         ''<dots_function_call>1</dots_function_call>'' =
       (init_state\<lparr>buffer := ''<dots_function_call>1</dots_function_call>''\<rparr>,
        \<lparr>normal_text = ''<dots_function_call>1</dots_function_call>'', calls = []\<rparr>)\<close>
  by code_simp

section \<open>The tool index along a session\<close>

lemma send_name_index:
  "send_name s nm = (s1, x)
     \<Longrightarrow> current_tool_id s1 = current_tool_id s
       \<and> (\<forall>c. x = Inr c \<longrightarrow> (\<forall>it \<in> set c. tool_index it = current_tool_id s))"
  by (auto simp: send_name_def Let_def split: sum.splits if_splits
      dest!: ToolCallItem_returns)

lemma send_arguments_index:
  "send_arguments dumps s args c0 = (s1, x)
     \<Longrightarrow> current_tool_id s1 = current_tool_id s
       \<and> (\<forall>c. x = Inr c \<longrightarrow>
            (\<forall>it \<in> set c. it \<in> set c0 \<or> tool_index it = current_tool_id s))"
  by (auto simp: send_arguments_def Let_def ToolCallItem_null split: sum.splits if_splits)

lemma stream_call_index:
  assumes "stream_call dumps s j = (s1, x)"
  shows "(current_tool_id s1 = current_tool_id s
            \<or> (current_tool_id s = - 1 \<and> current_tool_id s1 = 0))
       \<and> (\<forall>r. x = Inr r \<longrightarrow>
            (\<forall>it \<in> set (calls r).
               tool_index it = (if current_tool_id s = - 1 then 0 else current_tool_id s)))"
  using assms
  apply (auto simp: stream_call_def Let_def split: sum.splits if_splits prod.splits
      dest!: send_name_index send_arguments_index)
   apply blast+
  done

lemma try_block_index:
  assumes "- 1 \<le> current_tool_id s"
    and "try_block loads dumps s cur = (s1, x)"
  shows "(closes_call loads cur \<longrightarrow> current_tool_id s1 = max 0 (current_tool_id s) + 1)
       \<and> (\<not> closes_call loads cur \<longrightarrow>
            current_tool_id s1 = current_tool_id s
              \<or> (current_tool_id s = - 1 \<and> current_tool_id s1 = 0))
       \<and> (\<forall>r. x = Inr r \<longrightarrow>
            (\<forall>it \<in> set (calls r). tool_index it = max 0 (current_tool_id s)))"
proof (cases "str_find bot_token cur")
  case None
  with assms(2) show ?thesis
    by (auto simp: try_block_def closes_call_def empty_result_def)
next
  case (Some i)
  show ?thesis
  proof (cases "str_find_from eot_token cur i")
    case None
    note no_end = this
    have nc: "\<not> closes_call loads cur"
      using Some None by (simp add: closes_call_def)
    let ?p = "strip (drop (i + length bot_token) cur)"
    show ?thesis
    proof (cases "?p \<noteq> [] \<and> is_complete_json loads ?p")
      case False
      with assms(2) Some no_end nc show ?thesis
        by (auto simp: try_block_def empty_result_def Let_def)
    next
      case True
      then obtain j where j: "loads ?p = Inr j"
        by (auto simp: is_complete_json_def split: sum.splits)
      with assms(2) Some no_end True have sc: "stream_call dumps s j = (s1, x)"
        by (simp add: try_block_def Let_def)
      have "(if current_tool_id s = - 1 then 0 else current_tool_id s) = max 0 (current_tool_id s)"
        using assms(1) by auto
      with stream_call_index [OF sc] nc show ?thesis
        by auto
    qed
  next
    case (Some e)
    note end_found = this
    let ?c = "strip (slice cur (i + length bot_token) e)"
    show ?thesis
    proof (cases "loads ?c")
      case (Inl err)
      then have nc: "\<not> closes_call loads cur"
        using \<open>str_find bot_token cur = Some i\<close> end_found by (simp add: closes_call_def)
      from Inl assms(2) \<open>str_find bot_token cur = Some i\<close> end_found
      have "s1 = s \<and> (\<forall>r. x = Inr r \<longrightarrow> calls r = [])"
        by (cases err) (auto simp: try_block_def Let_def empty_result_def)
      with nc show ?thesis by auto
    next
      case (Inr j)
      show ?thesis
      proof (cases "\<exists>kvs. j = JObj kvs")
        case True
        then obtain kvs where kvs: "j = JObj kvs" ..
        let ?nm = "case map_of kvs ''name'' of Some v \<Rightarrow> v | None \<Rightarrow> JNull"
        from Inr kvs assms(2) \<open>str_find bot_token cur = Some i\<close> end_found
        have cc: "complete_call dumps s cur e (JObj kvs) = (s1, x)"
          by (simp add: try_block_def Let_def)
        show ?thesis
        proof (cases "name_ok ?nm")
          case True
          then have "closes_call loads cur"
            using Inr kvs \<open>str_find bot_token cur = Some i\<close> end_found
            by (simp add: closes_call_def)
          with complete_call_obj [OF assms(1) True, of dumps cur e] cc show ?thesis
            by auto
        next
          case False
          then have "\<not> closes_call loads cur"
            using Inr kvs \<open>str_find bot_token cur = Some i\<close> end_found
            by (simp add: closes_call_def)
          with complete_call_bad_name [OF False, of dumps s cur e] cc assms(1) show ?thesis
            by auto
        qed
      next
        case False
        then have nc: "\<not> closes_call loads cur"
          using Inr \<open>str_find bot_token cur = Some i\<close> end_found
          by (cases j) (simp_all add: closes_call_def)
        from False have "py_get j ''name'' JNull = Inl AttributeError"
          by (simp add: py_get_not_obj)
        with Inr assms(2) \<open>str_find bot_token cur = Some i\<close> end_found
        have "s1 = s \<and> x = Inl AttributeError"
          by (auto simp: try_block_def Let_def complete_call_def)
        with nc show ?thesis by auto
      qed
    qed
  qed
qed

lemma step_index:
  assumes "- 1 \<le> current_tool_id s"
    and "parse_streaming_increment loads dumps s f = (s1, r)"
  shows "(closes_call loads (buffer s @ f) \<longrightarrow>
            current_tool_id s1 = max 0 (current_tool_id s) + 1)
       \<and> (\<not> closes_call loads (buffer s @ f) \<longrightarrow>
            current_tool_id s1 = current_tool_id s
              \<or> (current_tool_id s = - 1 \<and> current_tool_id s1 = 0))
       \<and> (\<forall>it \<in> set (calls r). tool_index it = max 0 (current_tool_id s))"
proof (cases "str_contains bot_token (buffer s @ f)")
  case False
  then have "\<not> closes_call loads (buffer s @ f)"
    by (simp add: closes_call_def str_contains_def)
  moreover from False assms(2) have "s1 = s\<lparr>buffer := []\<rparr>" and "calls r = []"
    by (auto simp: no_bot_step)
  ultimately show ?thesis by simp
next
  case True
  let ?cur = "buffer s @ f"
  let ?s0 = "s\<lparr>buffer := ?cur\<rparr>"
  obtain s2 x where t: "try_block loads dumps ?s0 ?cur = (s2, x)"
    by (cases "try_block loads dumps ?s0 ?cur")
  have id0: "- 1 \<le> current_tool_id ?s0" using assms(1) by simp
  from True t assms(2) have s1: "s1 = s2"
    and r: "(\<forall>r'. x = Inr r' \<longrightarrow> r = r') \<and> (\<forall>e. x = Inl e \<longrightarrow> calls r = [])"
    by (auto simp: parse_streaming_increment_def split: sum.splits)
  from try_block_index [OF id0 t] s1 r show ?thesis
    by (cases x) auto
qed

lemma step_index_bounds:
  assumes "- 1 \<le> current_tool_id s"
    and "parse_streaming_increment loads dumps s f = (s1, r)"
  shows "- 1 \<le> current_tool_id s1 \<and> current_tool_id s \<le> current_tool_id s1"
  using step_index [OF assms] assms(1)
  by (cases "closes_call loads (buffer s @ f)") auto

lemma session_indices:
  assumes "- 1 \<le> current_tool_id s"
    and "run_session loads dumps s fs = (s1, rs)"
  shows "sorted (map tool_index (session_calls rs))
       \<and> (\<forall>it \<in> set (session_calls rs). max 0 (current_tool_id s) \<le> tool_index it)
       \<and> current_tool_id s \<le> current_tool_id s1"
  using assms
proof (induction fs arbitrary: s s1 rs)
  case Nil
  then show ?case by (simp add: session_calls_def)
next
  case (Cons f fs)
  obtain sa r where step: "parse_streaming_increment loads dumps s f = (sa, r)"
    by (cases "parse_streaming_increment loads dumps s f")
  obtain sb rs' where rest: "run_session loads dumps sa fs = (sb, rs')"
    by (cases "run_session loads dumps sa fs")
  from Cons.prems(2) step rest have eq: "s1 = sb" "rs = r # rs'"
    by simp_all
  from step_index_bounds [OF Cons.prems(1) step]
  have ba: "- 1 \<le> current_tool_id sa" and mono: "current_tool_id s \<le> current_tool_id sa"
    by simp_all
  from step_index [OF Cons.prems(1) step]
  have here: "\<forall>it \<in> set (calls r). tool_index it = max 0 (current_tool_id s)"
    by simp
  from Cons.IH [OF ba rest]
  have ih1: "sorted (map tool_index (session_calls rs'))"
    and ih2: "\<forall>it \<in> set (session_calls rs'). max 0 (current_tool_id sa) \<le> tool_index it"
    and ih3: "current_tool_id sa \<le> current_tool_id sb"
    by simp_all
  have sc: "session_calls rs = calls r @ session_calls rs'"
    using eq by (simp add: session_calls_def)
  have s_here: "sorted (map tool_index (calls r))"
    using here by (induction "calls r") (auto simp: sorted_wrt_iff_nth_less)
  show ?case
    unfolding sc using here ih1 ih2 ih3 mono eq s_here
    by (auto simp: sorted_append)
qed

text \<open>
  C6, as the code has it. In a session that starts with a tool index of at least \<open>-1\<close>,
  the indices of the emitted items never decrease, and neither does the tool index. A
  step that consumes a closing delimiter leaves the tool index one above the index of the
  item it emits: one more than before, and \<open>1\<close> when it was \<open>-1\<close>. A step that consumes
  none leaves the tool index as it was, or moves it from \<open>-1\<close> to \<open>0\<close>. So once the
  index is \<open>0\<close> or more, it grows by one exactly when a closing delimiter is consumed.
\<close>

theorem index_monotonicity:
  assumes "- 1 \<le> current_tool_id s"
  shows "sorted (map tool_index (session_calls (snd (run_session loads dumps s fragments))))
       \<and> current_tool_id s \<le> current_tool_id (fst (run_session loads dumps s fragments))
       \<and> (closes_call loads (buffer s @ f) \<longrightarrow>
            current_tool_id (fst (parse_streaming_increment loads dumps s f)) =
              max 0 (current_tool_id s) + 1)
       \<and> (\<not> closes_call loads (buffer s @ f) \<longrightarrow>
            current_tool_id (fst (parse_streaming_increment loads dumps s f)) = current_tool_id s
              \<or> (current_tool_id s = - 1
                   \<and> current_tool_id (fst (parse_streaming_increment loads dumps s f)) = 0))
       \<and> (0 \<le> current_tool_id s \<longrightarrow>
            (current_tool_id (fst (parse_streaming_increment loads dumps s f)) =
               current_tool_id s + 1) = closes_call loads (buffer s @ f))"
proof -
  obtain s1 rs where run: "run_session loads dumps s fragments = (s1, rs)"
    by (cases "run_session loads dumps s fragments")
  obtain s2 r where step: "parse_streaming_increment loads dumps s f = (s2, r)"
    by (cases "parse_streaming_increment loads dumps s f")
  from session_indices [OF assms run] run
  have a: "sorted (map tool_index (session_calls (snd (run_session loads dumps s fragments))))"
    and b: "current_tool_id s \<le> current_tool_id (fst (run_session loads dumps s fragments))"
    by simp_all
  from step_index [OF assms step] step
  have c: "closes_call loads (buffer s @ f) \<longrightarrow>
            current_tool_id (fst (parse_streaming_increment loads dumps s f)) =
              max 0 (current_tool_id s) + 1"
    and d: "\<not> closes_call loads (buffer s @ f) \<longrightarrow>
            current_tool_id (fst (parse_streaming_increment loads dumps s f)) = current_tool_id s
              \<or> (current_tool_id s = - 1
                   \<and> current_tool_id (fst (parse_streaming_increment loads dumps s f)) = 0)"
    by simp_all
  from c d have e: "0 \<le> current_tool_id s \<longrightarrow>
            (current_tool_id (fst (parse_streaming_increment loads dumps s f)) =
               current_tool_id s + 1) = closes_call loads (buffer s @ f)"
    by (cases "closes_call loads (buffer s @ f)") auto
  from a b c d e show ?thesis by blast
qed

theorem index_monotonicity_witness:
  \<open>- 1 \<le> current_tool_id init_state
   \<and> sorted (map tool_index (session_calls (snd
        (run_session loads_basic dumps_basic init_state [''<dots_function_call>{"name":"f","arguments":{"x":1}}'', ''</dots_function_call>'']))))
   \<and> map tool_index (session_calls (snd
        (run_session loads_basic dumps_basic init_state [''<dots_function_call>{"name":"f","arguments":{"x":1}}'', ''</dots_function_call>'']))) = [0, 0, 0]
   \<and> current_tool_id (fst (run_session loads_basic dumps_basic init_state [''<dots_function_call>{"name":"f","arguments":{"x":1}}'', ''</dots_function_call>''])) = 1\<close>
proof -
  have h: "- 1 \<le> current_tool_id init_state"
    by code_simp
  have v: \<open>map tool_index (session_calls (snd
        (run_session loads_basic dumps_basic init_state [''<dots_function_call>{"name":"f","arguments":{"x":1}}'', ''</dots_function_call>'']))) = [0, 0, 0]\<close>
    by code_simp
  have w: \<open>current_tool_id (fst (run_session loads_basic dumps_basic init_state [''<dots_function_call>{"name":"f","arguments":{"x":1}}'', ''</dots_function_call>''])) = 1\<close>
    by code_simp
  from index_monotonicity [OF h, where loads = loads_basic and dumps = dumps_basic
      and fragments = \<open>[''<dots_function_call>{"name":"f","arguments":{"x":1}}'', ''</dots_function_call>'']\<close>]
  have \<open>sorted (map tool_index (session_calls (snd
        (run_session loads_basic dumps_basic init_state [''<dots_function_call>{"name":"f","arguments":{"x":1}}'', ''</dots_function_call>'']))))\<close>
    by blast
  with h v w show ?thesis by blast
qed

text \<open>
  C6 as stated fails in a fresh session, where the tool index is \<open>-1\<close>: a first call
  that arrives whole moves it to \<open>1\<close>, and a first call whose JSON is complete before the
  closing delimiter arrives moves it to \<open>0\<close> with nothing consumed from the buffer.
\<close>

theorem index_monotonicity_counterexample:
  \<open>current_tool_id init_state = - 1
   \<and> closes_call loads_basic (buffer init_state @ ''<dots_function_call>{"name":"f","arguments":{"x":1}}</dots_function_call>'')
   \<and> current_tool_id (fst (parse_streaming_increment loads_basic dumps_basic init_state ''<dots_function_call>{"name":"f","arguments":{"x":1}}</dots_function_call>'')) = 1
   \<and> \<not> closes_call loads_basic (buffer init_state @ ''<dots_function_call>{"name":"f","arguments":{"x":1}}'')
   \<and> buffer (fst (parse_streaming_increment loads_basic dumps_basic init_state ''<dots_function_call>{"name":"f","arguments":{"x":1}}'')) = ''<dots_function_call>{"name":"f","arguments":{"x":1}}''
   \<and> current_tool_id (fst (parse_streaming_increment loads_basic dumps_basic init_state ''<dots_function_call>{"name":"f","arguments":{"x":1}}'')) = 0\<close>
  by code_simp

section \<open>A call whose JSON is complete before its closing delimiter arrives\<close>

text \<open>
  C1 on the session of two fragments \<open><OPEN>{"name":"f","arguments":{"x":1}}\<close> and
  \<open><CLOSE>\<close>. The first step streams the name and the arguments \<open>{"x": 1}\<close>; the second
  step, which completes the call, sends the name and the full arguments again. The
  parameters emitted for index \<open>0\<close> concatenate to \<open>{"x": 1}{"x": 1}\<close>, not to the
  serialized arguments \<open>{"x": 1}\<close>.
\<close>

theorem diff_accumulation_failing_input:
  \<open>session_calls (snd (run_session loads_basic dumps_basic init_state [''<dots_function_call>{"name":"f","arguments":{"x":1}}'', ''</dots_function_call>''])) =
     [\<lparr>tool_index = 0, name = JStr ''f'', parameters = []\<rparr>,
      \<lparr>tool_index = 0, name = JNull, parameters = ''{"x": 1}''\<rparr>,
      \<lparr>tool_index = 0, name = JStr ''f'', parameters = ''{"x": 1}''\<rparr>]
   \<and> concat (map parameters (filter (\<lambda>it. tool_index it = 0)
        (session_calls (snd (run_session loads_basic dumps_basic init_state [''<dots_function_call>{"name":"f","arguments":{"x":1}}'', ''</dots_function_call>''])))))
       = ''{"x": 1}{"x": 1}''
   \<and> dumps_basic (JObj [(''x'', JInt 1)]) = ''{"x": 1}''\<close>
  by code_simp

text \<open>
  C2 on the same session: two of the items emitted for index \<open>0\<close> carry the name \<open>f\<close>.
\<close>

theorem name_once_failing_input:
  \<open>map name (filter (\<lambda>it. tool_index it = 0)
      (session_calls (snd (run_session loads_basic dumps_basic init_state [''<dots_function_call>{"name":"f","arguments":{"x":1}}'', ''</dots_function_call>'']))))
     = [JStr ''f'', JNull, JStr ''f'']
   \<and> length (filter (\<lambda>it. tool_index it = 0 \<and> name it = JStr ''f'')
      (session_calls (snd (run_session loads_basic dumps_basic init_state [''<dots_function_call>{"name":"f","arguments":{"x":1}}'', ''</dots_function_call>''])))) = 2\<close>
  by code_simp

section \<open>Where the delimiters are found\<close>

text \<open>Where the delimiters can be found in a text that is put together from pieces.\<close>

lemma str_find_bound:
  "str_find pat xs = Some k \<Longrightarrow> k + length pat \<le> length xs"
proof (induction xs arbitrary: k)
  case Nil
  then show ?case by (simp split: if_splits)
next
  case (Cons c cs)
  then show ?case
    by (auto split: if_splits dest: prefix_length_le)
qed

lemma str_find_prefix: "pat \<noteq> [] \<Longrightarrow> str_find pat (pat @ xs) = Some 0"
  by (cases pat) simp_all

lemma str_find_append:
  "str_find pat xs = Some i \<Longrightarrow> \<exists>k \<le> i. str_find pat (xs @ ys) = Some k"
proof (induction xs arbitrary: i)
  case Nil
  then show ?case
    by (cases ys) (auto split: if_splits)
next
  case (Cons c cs)
  show ?case
  proof (cases "prefix pat (c # cs)")
    case True
    then have "prefix pat ((c # cs) @ ys)" by (rule prefix_prefix)
    then show ?thesis by simp
  next
    case False
    with Cons.prems obtain j where j: "str_find pat cs = Some j" "i = Suc j"
      by auto
    from Cons.IH [OF j(1)] obtain k where "k \<le> j" "str_find pat (cs @ ys) = Some k"
      by blast
    with j show ?thesis by auto
  qed
qed

lemma str_find_none_before:
  assumes "str_find pat (xs @ ys) = Some k"
    and "length xs < k + length pat"
  shows "str_find pat xs = None"
proof (cases "str_find pat xs")
  case None
  then show ?thesis .
next
  case (Some i)
  from str_find_append [OF Some, of ys] assms(1) have "k \<le> i" by auto
  moreover from str_find_bound [OF Some] have "i + length pat \<le> length xs" .
  ultimately show ?thesis using assms(2) by simp
qed

lemma str_find_eot_after_bot:
  "str_find eot_token (bot_token @ xs) = map_option (\<lambda>i. i + 20) (str_find eot_token xs)"
  by (cases "str_find eot_token xs") (simp_all add: bot_token_def eot_token_def)

lemma bot_token_length [simp]: "length bot_token = 20"
  by (simp add: bot_token_def)

lemma eot_token_length [simp]: "length eot_token = 21"
  by (simp add: eot_token_def)

lemma strip_idem: "strip (strip t) = strip t"
proof -
  let ?a = "dropWhile is_space t"
  let ?b = "rev (dropWhile is_space (rev ?a))"
  have parts: "?a = ?b @ rev (takeWhile is_space (rev ?a))"
    by (metis rev_append rev_rev_ident takeWhile_dropWhile_id)
  have front: "dropWhile is_space ?b = ?b"
  proof (cases "?b = []")
    case True
    show ?thesis by (simp only: True dropWhile.simps)
  next
    case False
    have "?a \<noteq> []"
    proof
      assume e: "?a = []"
      have "?b = []" unfolding e by simp
      with False show False by simp
    qed
    then have "\<not> is_space (hd ?a)" by (rule hd_dropWhile)
    moreover from False parts have "hd ?a = hd ?b"
      by (metis hd_append2)
    ultimately show ?thesis
      using False by (simp add: dropWhile_eq_self_iff)
  qed
  have rear: "dropWhile is_space (rev ?b) = rev ?b"
  proof (cases "dropWhile is_space (rev ?a) = []")
    case True
    then show ?thesis by simp
  next
    case False
    then have "\<not> is_space (hd (dropWhile is_space (rev ?a)))" by (rule hd_dropWhile)
    then show ?thesis by (simp add: dropWhile_eq_self_iff)
  qed
  show ?thesis
    unfolding strip_def using front rear by simp
qed

section \<open>The single-shot round trip\<close>

text \<open>
  The opening delimiter has \<open><\<close> only as its first character, so it cannot overlap
  itself: after a text without an opening delimiter, the first one starts where that text
  ends. What \<open>strip\<close> returns is the text without the white space at its two ends.
\<close>

lemma bot_token_no_border:
  assumes "bot_token = ys @ us" and "ys \<noteq> []" and "us \<noteq> []"
  shows "hd us \<noteq> CHR ''<''"
proof -
  from assms(2) obtain a l where ys: "ys = a # l" by (cases ys) auto
  have "tl bot_token = l @ us"
    by (subst assms(1)) (simp add: ys)
  then have "set us \<subseteq> set (tl bot_token)"
    by simp
  moreover have "CHR ''<'' \<notin> set (tl bot_token)"
    by (simp add: bot_token_def)
  moreover from assms(3) have "hd us \<in> set us" by simp
  ultimately show ?thesis by auto
qed

lemma str_find_bot_after:
  assumes "\<not> str_contains bot_token bef"
  shows "str_find bot_token (bef @ bot_token @ zs) = Some (length bef)"
  using assms
proof (induction bef)
  case Nil
  show ?case
    using str_find_prefix [of bot_token zs] by (simp add: bot_token_def)
next
  case (Cons c cs)
  from Cons.prems have np: "\<not> prefix bot_token (c # cs)" and nc: "\<not> str_contains bot_token cs"
    by (auto simp: str_contains_def split: if_splits)
  have "\<not> prefix bot_token ((c # cs) @ bot_token @ zs)"
  proof
    assume "prefix bot_token ((c # cs) @ bot_token @ zs)"
    then have "prefix bot_token (c # cs)
        \<or> (\<exists>us. bot_token = (c # cs) @ us \<and> prefix us (bot_token @ zs))"
      by (simp only: prefix_append)
    with np obtain us where us: "bot_token = (c # cs) @ us" "prefix us (bot_token @ zs)"
      by blast
    show False
    proof (cases "us = []")
      case True
      with us(1) np show False by simp
    next
      case False
      with us(2) have "hd us = hd (bot_token @ zs)"
        by (cases us) (auto simp: prefix_def)
      then have "hd us = CHR ''<''" by (simp add: bot_token_def)
      with bot_token_no_border [OF us(1) _ False] show False by simp
    qed
  qed
  with Cons.IH [OF nc] show ?case by simp
qed

lemma strip_parts:
  "\<exists>l r. t = l @ strip t @ r \<and> (\<forall>c \<in> set l. is_space c) \<and> (\<forall>c \<in> set r. is_space c)"
proof -
  let ?l = "takeWhile is_space t"
  let ?a = "dropWhile is_space t"
  let ?r = "rev (takeWhile is_space (rev ?a))"
  have "?a = strip t @ ?r"
    unfolding strip_def by (metis rev_append rev_rev_ident takeWhile_dropWhile_id)
  then have "t = ?l @ strip t @ ?r"
    by (metis takeWhile_dropWhile_id)
  moreover have "\<forall>c \<in> set ?l. is_space c"
    by (auto dest: set_takeWhileD)
  moreover have "\<forall>c \<in> set ?r. is_space c"
    by (auto dest: set_takeWhileD)
  ultimately show ?thesis by blast
qed

lemma strip_ends:
  assumes "strip t \<noteq> []"
  shows "\<not> is_space (hd (strip t)) \<and> \<not> is_space (last (strip t))"
proof -
  let ?a = "dropWhile is_space t"
  let ?b = "dropWhile is_space (rev ?a)"
  have b: "strip t = rev ?b" by (simp add: strip_def)
  with assms have nb: "?b \<noteq> []" by simp
  then have last_ok: "\<not> is_space (hd ?b)" by (rule hd_dropWhile)
  have "?a \<noteq> []"
  proof
    assume e: "?a = []"
    have "?b = []" unfolding e by simp
    with nb show False by simp
  qed
  then have first_ok: "\<not> is_space (hd ?a)" by (rule hd_dropWhile)
  have "?a = rev ?b @ rev (takeWhile is_space (rev ?a))"
    by (metis rev_append rev_rev_ident takeWhile_dropWhile_id)
  with nb have "hd ?a = hd (rev ?b)"
    by (metis hd_append2 rev_is_Nil_conv)
  with first_ok last_ok nb show ?thesis
    unfolding b by (simp add: last_rev)
qed

lemma example_call_end:
  \<open>str_find eot_token (''{"name":"f","arguments":{"x":1}}'' @ eot_token @ aft) = Some (length ''{"name":"f","arguments":{"x":1}}'')\<close>
  by (simp add: eot_token_def)

lemma findall_one_region:
  assumes "\<not> str_contains bot_token bef"
    and "func_call_regex_findall aft = []"
    and "str_find eot_token (J @ eot_token @ aft) = Some (length J)"
  shows "func_call_regex_findall (bef @ bot_token @ J @ eot_token @ aft) = [strip J]"
  by (subst func_call_regex_findall.simps)
    (simp add: str_find_bot_after [OF assms(1)] assms(2,3))

lemma one_shot_one_region:
  assumes "\<not> str_contains bot_token bef"
    and "func_call_regex_findall aft = []"
    and "str_find eot_token (J @ eot_token @ aft) = Some (length J)"
    and "loads (strip J) = Inr (JObj kvs)"
    and "pbj (JObj [(''name'', case map_of kvs ''name'' of Some v \<Rightarrow> v | None \<Rightarrow> JNull),
                    (''parameters'',
                     case map_of kvs ''arguments'' of Some v \<Rightarrow> v | None \<Rightarrow> JObj [])])
           = Inr items"
  shows "detect_and_parse loads pbj (bef @ bot_token @ J @ eot_token @ aft) =
           \<lparr>normal_text = strip bef, calls = items\<rparr>"
proof (rule detect_and_parse_single)
  show "str_find bot_token (bef @ bot_token @ J @ eot_token @ aft) = Some (length bef)"
    by (rule str_find_bot_after [OF assms(1)])
  show "strip (take (length bef) (bef @ bot_token @ J @ eot_token @ aft)) = strip bef"
    by simp
  show "func_call_regex_findall (bef @ bot_token @ J @ eot_token @ aft) = [strip J]"
    by (rule findall_one_region [OF assms(1,2,3)])
  show "loads (strip (strip J)) = Inr (JObj kvs)"
    using assms(4) by (simp add: strip_idem)
  show "py_get (JObj kvs) ''name'' JNull =
      Inr (case map_of kvs ''name'' of Some v \<Rightarrow> v | None \<Rightarrow> JNull)"
    by (rule py_get_obj)
  show "py_get (JObj kvs) ''arguments'' (JObj []) =
      Inr (case map_of kvs ''arguments'' of Some v \<Rightarrow> v | None \<Rightarrow> JObj [])"
    by (rule py_get_obj)
  show "pbj (JObj [(''name'', case map_of kvs ''name'' of Some v \<Rightarrow> v | None \<Rightarrow> JNull),
                    (''parameters'',
                     case map_of kvs ''arguments'' of Some v \<Rightarrow> v | None \<Rightarrow> JObj [])])
           = Inr items"
    by (rule assms(5))
qed

text \<open>
  C9. Take a text of the form before-text, opening delimiter,
  \<open>{"name":"f","arguments":{"x":1}}\<close>, closing delimiter, after-text, where the
  before-text holds no opening delimiter and the after-text holds no opening delimiter
  with a closing delimiter after it. One-shot extraction returns the trimmed before-text
  as plain text (the before-text without the white space at its two ends) and exactly one
  call, with name \<open>f\<close> and the arguments \<open>{"x": 1}\<close>; the after-text is nowhere in the
  result.
\<close>

theorem single_shot_round_trip:
  assumes "\<not> str_contains bot_token bef"
    and "func_call_regex_findall aft = []"
    and \<open>loads ''{"name":"f","arguments":{"x":1}}'' = Inr (JObj [(''name'', JStr ''f''), (''arguments'', JObj [(''x'', JInt 1)])])\<close>
  shows \<open>detect_and_parse loads (parse_base_json_spec ix dumps)
       (bef @ bot_token @ ''{"name":"f","arguments":{"x":1}}'' @ eot_token @ aft) =
     \<lparr>normal_text = strip bef,
      calls = [\<lparr>tool_index = ix, name = JStr ''f'',
                parameters = dumps (JObj [(''x'', JInt 1)])\<rparr>]\<rparr>
   \<and> (\<exists>l r. bef = l @ strip bef @ r
          \<and> (\<forall>c \<in> set l. is_space c) \<and> (\<forall>c \<in> set r. is_space c))
   \<and> (strip bef \<noteq> [] \<longrightarrow>
         \<not> is_space (hd (strip bef)) \<and> \<not> is_space (last (strip bef)))\<close>
proof -
  have s: \<open>strip ''{"name":"f","arguments":{"x":1}}'' = ''{"name":"f","arguments":{"x":1}}''\<close>
    by code_simp
  have d: \<open>loads (strip ''{"name":"f","arguments":{"x":1}}'') = Inr (JObj [(''name'', JStr ''f''), (''arguments'', JObj [(''x'', JInt 1)])])\<close>
    using assms(3) by (simp only: s)
  have h: \<open>parse_base_json_spec ix dumps
      (JObj [(''name'', case map_of [(''name'', JStr ''f''), (''arguments'', JObj [(''x'', JInt 1)])] ''name'' of Some v \<Rightarrow> v | None \<Rightarrow> JNull),
             (''parameters'', case map_of [(''name'', JStr ''f''), (''arguments'', JObj [(''x'', JInt 1)])] ''arguments'' of Some v \<Rightarrow> v | None \<Rightarrow> JObj [])])
      = Inr [\<lparr>tool_index = ix, name = JStr ''f'',
               parameters = dumps (JObj [(''x'', JInt 1)])\<rparr>]\<close>
    by (simp add: parse_base_json_spec_def py_get_def ToolCallItem_def name_ok_def)
  from one_shot_one_region [where loads = loads and pbj = "parse_base_json_spec ix dumps",
      OF assms(1) assms(2) example_call_end d h]
  have \<open>detect_and_parse loads (parse_base_json_spec ix dumps)
       (bef @ bot_token @ ''{"name":"f","arguments":{"x":1}}'' @ eot_token @ aft) =
     \<lparr>normal_text = strip bef,
      calls = [\<lparr>tool_index = ix, name = JStr ''f'',
                parameters = dumps (JObj [(''x'', JInt 1)])\<rparr>]\<rparr>\<close> .
  with strip_parts [of bef] strip_ends [of bef] show ?thesis
    by blast
qed

theorem single_shot_round_trip_witness:
  \<open>\<not> str_contains bot_token ''  before \<newline>''
   \<and> func_call_regex_findall ''after'' = []
   \<and> loads_basic ''{"name":"f","arguments":{"x":1}}'' = Inr (JObj [(''name'', JStr ''f''), (''arguments'', JObj [(''x'', JInt 1)])])
   \<and> detect_and_parse loads_basic (parse_base_json_spec 0 dumps_basic)
         (''  before \<newline>'' @ bot_token @ ''{"name":"f","arguments":{"x":1}}'' @ eot_token @ ''after'') =
       \<lparr>normal_text = ''before'',
        calls = [\<lparr>tool_index = 0, name = JStr ''f'', parameters = ''{"x": 1}''\<rparr>]\<rparr>\<close>
proof -
  have h1: \<open>\<not> str_contains bot_token ''  before \<newline>''\<close>
    by code_simp
  have h2: \<open>func_call_regex_findall ''after'' = []\<close>
    by code_simp
  have h3: \<open>loads_basic ''{"name":"f","arguments":{"x":1}}'' = Inr (JObj [(''name'', JStr ''f''), (''arguments'', JObj [(''x'', JInt 1)])])\<close>
    by code_simp
  have v1: \<open>strip ''  before \<newline>'' = ''before''\<close>
    by code_simp
  have v2: \<open>dumps_basic (JObj [(''x'', JInt 1)]) = ''{"x": 1}''\<close>
    by code_simp
  from single_shot_round_trip [where loads = loads_basic and ix = 0 and dumps = dumps_basic,
      OF h1 h2 h3]
  have \<open>detect_and_parse loads_basic (parse_base_json_spec 0 dumps_basic)
         (''  before \<newline>'' @ bot_token @ ''{"name":"f","arguments":{"x":1}}'' @ eot_token @ ''after'') =
       \<lparr>normal_text = strip ''  before \<newline>'',
        calls = [\<lparr>tool_index = 0, name = JStr ''f'',
                  parameters = dumps_basic (JObj [(''x'', JInt 1)])\<rparr>]\<rparr>\<close>
    by (rule conjunct1)
  then have \<open>detect_and_parse loads_basic (parse_base_json_spec 0 dumps_basic)
         (''  before \<newline>'' @ bot_token @ ''{"name":"f","arguments":{"x":1}}'' @ eot_token @ ''after'') =
       \<lparr>normal_text = ''before'',
        calls = [\<lparr>tool_index = 0, name = JStr ''f'', parameters = ''{"x": 1}''\<rparr>]\<rparr>\<close>
    by (simp only: v1 v2)
  with h1 h2 h3 show ?thesis
    by blast
qed

section \<open>Splitting a single call into fragments\<close>

text \<open>
  One step of a session that feeds a single call piece by piece, then the whole session
  by induction on the fragments that are still to come, then one-shot extraction on the
  unsplit text.
\<close>

lemma waiting_step:
  assumes "buffer s @ f = bot_token @ p"
    and "str_find eot_token p = None"
    and "\<not> streams_early loads (bot_token @ p)"
  shows "parse_streaming_increment loads dumps s f =
           (s\<lparr>buffer := bot_token @ p\<rparr>, \<lparr>normal_text = [], calls = []\<rparr>)"
proof -
  let ?cur = "bot_token @ p"
  have b: "str_find bot_token ?cur = Some 0"
    by (rule str_find_prefix) (simp add: bot_token_def)
  then have has: "str_contains bot_token ?cur"
    by (simp add: str_contains_def)
  have e: "str_find_from eot_token ?cur 0 = None"
    using assms(2) by (simp add: str_find_from_def str_find_eot_after_bot)
  from assms(3) b e
  have quiet: "\<not> (strip (drop (0 + length bot_token) ?cur) \<noteq> []
      \<and> is_complete_json loads (strip (drop (0 + length bot_token) ?cur)))"
    by (simp add: streams_early_def Let_def)
  have "try_block loads dumps (s\<lparr>buffer := ?cur\<rparr>) ?cur =
      (s\<lparr>buffer := ?cur\<rparr>, Inr empty_result)"
    using b e quiet by (auto simp: try_block_def Let_def)
  with has assms(1) show ?thesis
    by (simp add: parse_streaming_increment_def empty_result_def)
qed

lemma completing_step:
  assumes "current_tool_id s = - 1"
    and "buffer s @ f = bot_token @ J @ eot_token"
    and "str_find eot_token (J @ eot_token) = Some (length J)"
    and "loads (strip J) = Inr (JObj kvs)"
    and "name_ok (case map_of kvs ''name'' of Some v \<Rightarrow> v | None \<Rightarrow> JNull)"
  shows "buffer (fst (parse_streaming_increment loads dumps s f)) = []
       \<and> current_tool_id (fst (parse_streaming_increment loads dumps s f)) = 1
       \<and> calls (snd (parse_streaming_increment loads dumps s f)) =
           [\<lparr>tool_index = 0,
             name = (case map_of kvs ''name'' of Some v \<Rightarrow> v | None \<Rightarrow> JNull),
             parameters =
               (if truthy (case map_of kvs ''arguments'' of Some v \<Rightarrow> v | None \<Rightarrow> JObj [])
                then dumps (case map_of kvs ''arguments'' of Some v \<Rightarrow> v | None \<Rightarrow> JObj [])
                else [])\<rparr>]"
proof -
  let ?cur = "bot_token @ J @ eot_token"
  let ?s0 = "s\<lparr>buffer := ?cur\<rparr>"
  have id0: "- 1 \<le> current_tool_id ?s0" using assms(1) by simp
  have b: "str_find bot_token ?cur = Some 0"
    by (rule str_find_prefix) (simp add: bot_token_def)
  then have has: "str_contains bot_token ?cur"
    by (simp add: str_contains_def)
  have e: "str_find_from eot_token ?cur 0 = Some (20 + length J)"
    using assms(3) by (simp add: str_find_from_def str_find_eot_after_bot)
  have interior: "slice ?cur (0 + length bot_token) (20 + length J) = J"
    by (simp add: slice_def)
  have tb: "try_block loads dumps ?s0 ?cur =
      complete_call dumps ?s0 ?cur (20 + length J) (JObj kvs)"
    using b e assms(4) interior by (simp add: try_block_def)
  from complete_call_obj [OF id0 assms(5), of dumps ?cur "20 + length J"]
  obtain s2 r where c: "complete_call dumps ?s0 ?cur (20 + length J) (JObj kvs) = (s2, Inr r)"
    and r: "r = \<lparr>normal_text = [],
                    calls = [\<lparr>tool_index = max 0 (current_tool_id ?s0),
                              name = (case map_of kvs ''name'' of Some v \<Rightarrow> v | None \<Rightarrow> JNull),
                              parameters =
                                (let args = (case map_of kvs ''arguments'' of
                                               Some v \<Rightarrow> v | None \<Rightarrow> JObj [])
                                 in if truthy args then dumps args else [])\<rparr>]\<rparr>"
    and rest: "buffer s2 = drop (20 + length J + length eot_token) ?cur"
      "current_tool_id s2 = max 0 (current_tool_id ?s0) + 1"
    by blast
  from has tb c assms(2)
  have "parse_streaming_increment loads dumps s f = (s2, r)"
    by (simp add: parse_streaming_increment_def)
  with r rest assms(1) show ?thesis
    by (simp add: Let_def)
qed

lemma empty_step:
  assumes "buffer s = []"
  shows "parse_streaming_increment loads dumps s [] = (s, \<lparr>normal_text = [], calls = []\<rparr>)"
proof -
  have "\<not> str_contains bot_token (buffer s @ [])"
    using assms by (simp add: str_contains_def bot_token_def)
  from no_bot_step [OF this, of loads dumps] assms show ?thesis
    by simp
qed

lemma run_empty:
  assumes "buffer s = []" and "concat fs = []"
  shows "fst (run_session loads dumps s fs) = s
       \<and> session_calls (snd (run_session loads dumps s fs)) = []"
  using assms
proof (induction fs)
  case Nil
  then show ?case by (simp add: session_calls_def)
next
  case (Cons f fs)
  then have "f = []" and "concat fs = []" by simp_all
  with Cons show ?case
    by (auto simp: empty_step session_calls_def split: prod.splits)
qed

lemma run_session_step:
  "parse_streaming_increment loads dumps s f = (s1, r)
     \<Longrightarrow> run_session loads dumps s1 fs = (s2, rs)
     \<Longrightarrow> run_session loads dumps s (f # fs) = (s2, r # rs)"
  by simp

lemma run_session_append:
  "run_session loads dumps s (xs @ ys) =
     (case run_session loads dumps s xs of
        (s1, r1) \<Rightarrow>
          (case run_session loads dumps s1 ys of (s2, r2) \<Rightarrow> (s2, r1 @ r2)))"
  by (induction xs arbitrary: s) (auto split: prod.splits)

lemma session_calls_append:
  "session_calls (snd (run_session loads dumps s (xs @ ys))) =
     session_calls (snd (run_session loads dumps s xs))
       @ session_calls (snd (run_session loads dumps (fst (run_session loads dumps s xs)) ys))"
  by (simp add: run_session_append session_calls_def split: prod.splits)

lemma never_streams_append:
  "never_streams loads fed (xs @ ys) =
     (never_streams loads fed xs \<and> never_streams loads (fed @ concat xs) ys)"
  by (induction xs arbitrary: fed) auto

lemma quiet_session:
  fixes kvs :: pydict
  defines "nm \<equiv> (case map_of kvs ''name'' of Some v \<Rightarrow> v | None \<Rightarrow> JNull)"
    and "args \<equiv> (case map_of kvs ''arguments'' of Some v \<Rightarrow> v | None \<Rightarrow> JObj [])"
  assumes dec: "loads (strip J) = Inr (JObj kvs)"
    and fe: "str_find eot_token (J @ eot_token) = Some (length J)"
    and good_name: "name_ok nm"
  shows "buffer s @ f = bot_token @ p \<Longrightarrow> p @ concat fs = J @ eot_token
     \<Longrightarrow> current_tool_id s = - 1
     \<Longrightarrow> never_streams loads (buffer s) (f # fs)
     \<Longrightarrow> session_calls (snd (run_session loads dumps s (f # fs))) =
           [\<lparr>tool_index = 0, name = nm,
             parameters = (if truthy args then dumps args else [])\<rparr>]"
proof (induction fs arbitrary: s f p)
  case Nil
  then have whole_text: "buffer s @ f = bot_token @ J @ eot_token" by simp
  obtain s1 r where step: "parse_streaming_increment loads dumps s f = (s1, r)"
    by (cases "parse_streaming_increment loads dumps s f")
  from completing_step [where loads = loads and dumps = dumps,
      OF Nil.prems(3) whole_text fe dec good_name [unfolded nm_def]] step
  have "calls r = [\<lparr>tool_index = 0, name = nm,
             parameters = (if truthy args then dumps args else [])\<rparr>]"
    by (simp_all add: nm_def args_def)
  with step show ?case
    by (simp add: session_calls_def)
next
  case (Cons g gs)
  obtain s1 r where step: "parse_streaming_increment loads dumps s f = (s1, r)"
    by (cases "parse_streaming_increment loads dumps s f")
  obtain s2 rs where run: "run_session loads dumps s1 (g # gs) = (s2, rs)"
    by (cases "run_session loads dumps s1 (g # gs)")
  have total: "session_calls (snd (run_session loads dumps s (f # g # gs))) =
      calls r @ session_calls rs"
    using run_session_step [OF step run] by (simp add: session_calls_def)
  show ?case
  proof (cases "concat (g # gs) = []")
    case True
    from Cons.prems(2) have "p = J @ eot_token" unfolding True by simp
    with Cons.prems(1) have whole_text: "buffer s @ f = bot_token @ J @ eot_token" by simp
    from completing_step [where loads = loads and dumps = dumps,
      OF Cons.prems(3) whole_text fe dec good_name [unfolded nm_def]]
      step
    have s1: "buffer s1 = []"
      and r: "calls r = [\<lparr>tool_index = 0, name = nm,
             parameters = (if truthy args then dumps args else [])\<rparr>]"
      by (simp_all add: nm_def args_def)
    from run_empty [OF s1 True, of loads dumps] run have "session_calls rs = []"
      by simp
    with r show ?thesis unfolding total by simp
  next
    case False
    from Cons.prems(2) have len: "length p + length (concat (g # gs)) = length J + 21"
      by (metis length_append eot_token_length)
    from False have pos: "0 < length (concat (g # gs))"
      by (simp only: length_greater_0_conv not_False_eq_True)
    have "length p < length J + 21"
      using len pos by linarith
    then have short: "length p < length J + length eot_token"
      by simp
    from Cons.prems(2) fe have "str_find eot_token (p @ concat (g # gs)) = Some (length J)"
      by simp
    from str_find_none_before [OF this short]
    have none: "str_find eot_token p = None" .
    from Cons.prems(4) have q: "\<not> streams_early loads (buffer s @ f)"
      and later: "never_streams loads (buffer s @ f) (g # gs)"
      by simp_all
    from q Cons.prems(1) have q': "\<not> streams_early loads (bot_token @ p)" by simp
    from waiting_step [OF Cons.prems(1) none q', of dumps] step
    have s1: "s1 = s\<lparr>buffer := bot_token @ p\<rparr>" and r: "calls r = []"
      by simp_all
    have b1: "buffer s1 @ g = bot_token @ (p @ g)" using s1 by simp
    from Cons.prems(2) have rest: "(p @ g) @ concat gs = J @ eot_token" by simp
    have id1: "current_tool_id s1 = - 1" using s1 Cons.prems(3) by simp
    have ns: "never_streams loads (buffer s1) (g # gs)"
      using later Cons.prems(1) s1 by simp
    from Cons.IH [OF b1 rest id1 ns] run
    have "session_calls rs = [\<lparr>tool_index = 0, name = nm,
             parameters = (if truthy args then dumps args else [])\<rparr>]"
      by simp
    with r show ?thesis unfolding total by simp
  qed
qed

lemma findall_single_call:
  assumes "str_find eot_token (J @ eot_token) = Some (length J)"
  shows "func_call_regex_findall (bot_token @ J @ eot_token) = [strip J]"
proof -
  have b: "str_find bot_token (bot_token @ J @ eot_token) = Some 0"
    by (rule str_find_prefix) (simp add: bot_token_def)
  have e: "func_call_regex_findall [] = []"
    by (subst func_call_regex_findall.simps) (simp add: bot_token_def)
  show ?thesis
    by (subst func_call_regex_findall.simps) (simp add: b assms e)
qed

lemma one_shot_single_call:
  assumes "loads (strip J) = Inr (JObj kvs)"
    and "str_find eot_token (J @ eot_token) = Some (length J)"
  shows "detect_and_parse loads pbj (bot_token @ J @ eot_token) =
     (case pbj (JObj [(''name'', case map_of kvs ''name'' of Some v \<Rightarrow> v | None \<Rightarrow> JNull),
                      (''parameters'',
                       case map_of kvs ''arguments'' of Some v \<Rightarrow> v | None \<Rightarrow> JObj [])]) of
        Inr items \<Rightarrow> \<lparr>normal_text = [], calls = items\<rparr>
      | Inl e \<Rightarrow> \<lparr>normal_text = bot_token @ J @ eot_token, calls = []\<rparr>)"
proof -
  have b: "str_find bot_token (bot_token @ J @ eot_token) = Some 0"
    by (rule str_find_prefix) (simp add: bot_token_def)
  have s: "strip [] = []" by (simp add: strip_def)
  show ?thesis
    using assms(1)
    by (simp add: detect_and_parse_def str_contains_def b s findall_single_call [OF assms(2)]
        strip_idem py_get_obj split: sum.splits)
qed

text \<open>
  C3, as the code has it. Take a single-call text: the opening delimiter, an interior
  whose first closing delimiter is the one that ends the text and whose stripped form
  decodes to a JSON object with a string or null name, and the closing delimiter. Split
  it into fragments so that the first non-empty fragment holds the whole opening
  delimiter and no fragment ends where the text fed so far is complete JSON with the
  closing delimiter still to come. Then the session emits exactly one item, with index
  \<open>0\<close>, the decoded name and the encoded arguments (the empty string when the arguments
  are false in Python's sense), and one-shot extraction on the unsplit text hands that
  name and those arguments to \<open>parse_base_json\<close>, whose items are its calls. A fragment
  that ends right after the JSON gives the session of C1 and C2; nothing is said about it
  here.
\<close>

theorem chunk_size_invariance:
  assumes decoded: "loads (strip J) = Inr (JObj kvs)"
    and good_name: "name_ok (case map_of kvs ''name'' of Some v \<Rightarrow> v | None \<Rightarrow> JNull)"
    and one_close: "str_find eot_token (J @ eot_token) = Some (length J)"
    and whole_text: "concat fragments = bot_token @ J @ eot_token"
    and whole_open: "prefix bot_token (hd (dropWhile (\<lambda>f. f = []) fragments))"
    and quiet: "never_streams loads [] fragments"
  shows "session_calls (snd (run_session loads dumps init_state fragments)) =
           [\<lparr>tool_index = 0,
             name = (case map_of kvs ''name'' of Some v \<Rightarrow> v | None \<Rightarrow> JNull),
             parameters =
               (if truthy (case map_of kvs ''arguments'' of Some v \<Rightarrow> v | None \<Rightarrow> JObj [])
                then dumps (case map_of kvs ''arguments'' of Some v \<Rightarrow> v | None \<Rightarrow> JObj [])
                else [])\<rparr>]
       \<and> detect_and_parse loads pbj (bot_token @ J @ eot_token) =
           (case pbj (JObj [(''name'', case map_of kvs ''name'' of Some v \<Rightarrow> v | None \<Rightarrow> JNull),
                            (''parameters'',
                             case map_of kvs ''arguments'' of Some v \<Rightarrow> v | None \<Rightarrow> JObj [])]) of
              Inr items \<Rightarrow> \<lparr>normal_text = [], calls = items\<rparr>
            | Inl e \<Rightarrow> \<lparr>normal_text = bot_token @ J @ eot_token, calls = []\<rparr>)"
proof -
  let ?blank = "takeWhile (\<lambda>f. f = []) fragments"
  let ?tail = "dropWhile (\<lambda>f. f = []) fragments"
  have parts: "fragments = ?blank @ ?tail" by simp
  have blank: "concat ?blank = []"
    by (auto dest: set_takeWhileD)
  have "?tail \<noteq> []"
  proof
    assume "?tail = []"
    then have "concat fragments = []" by (auto simp: dropWhile_eq_Nil_conv)
    with whole_text show False by (simp add: bot_token_def)
  qed
  then obtain f0 rest where tail: "?tail = f0 # rest" by (cases ?tail) auto
  from whole_open tail obtain a where f0: "f0 = bot_token @ a"
    by (auto simp: prefix_def)
  have "concat fragments = concat ?blank @ concat ?tail"
    by (metis concat_append parts)
  with whole_text blank tail f0 have rest: "a @ concat rest = J @ eot_token"
    by simp
  have start: "buffer init_state @ f0 = bot_token @ a"
    using f0 by (simp add: init_state_def)
  have fresh: "current_tool_id init_state = - 1"
    by (simp add: init_state_def)
  have empty_buffer: "buffer init_state = []"
    by (simp add: init_state_def)
  from quiet have "never_streams loads [] (?blank @ ?tail)" by simp
  then have "never_streams loads ([] @ concat ?blank) ?tail"
    by (simp only: never_streams_append)
  then have ns: "never_streams loads (buffer init_state) (f0 # rest)"
    using blank tail empty_buffer by simp
  from run_empty [OF empty_buffer blank, of loads dumps]
  have skip: "fst (run_session loads dumps init_state ?blank) = init_state"
    "session_calls (snd (run_session loads dumps init_state ?blank)) = []"
    by simp_all
  from session_calls_append [of loads dumps init_state ?blank ?tail]
  have "session_calls (snd (run_session loads dumps init_state fragments)) =
      session_calls (snd (run_session loads dumps init_state ?blank))
        @ session_calls (snd (run_session loads dumps
            (fst (run_session loads dumps init_state ?blank)) ?tail))"
    by (simp only: takeWhile_dropWhile_id)
  then have "session_calls (snd (run_session loads dumps init_state fragments)) =
      session_calls (snd (run_session loads dumps init_state (f0 # rest)))"
    using skip tail by simp
  with quiet_session [where loads = loads and dumps = dumps,
      OF decoded one_close good_name start rest fresh ns]
    one_shot_single_call [where loads = loads and pbj = pbj, OF decoded one_close]
  show ?thesis by simp
qed

theorem chunk_size_invariance_witness:
  \<open>loads_basic (strip ''{"name":"f","arguments":{"x":1}}'') = Inr (JObj [(''name'', JStr ''f''), (''arguments'', JObj [(''x'', JInt 1)])])
   \<and> name_ok (case map_of [(''name'', JStr ''f''), (''arguments'', JObj [(''x'', JInt 1)])] ''name'' of Some v \<Rightarrow> v | None \<Rightarrow> JNull)
   \<and> str_find eot_token (''{"name":"f","arguments":{"x":1}}'' @ eot_token) = Some (length ''{"name":"f","arguments":{"x":1}}'')
   \<and> concat [[], ''<dots_function_call>{"name":'', ''"f","arguments":{"x":1}}</dots_'', ''function_call>''] = bot_token @ ''{"name":"f","arguments":{"x":1}}'' @ eot_token
   \<and> prefix bot_token (hd (dropWhile (\<lambda>f. f = []) [[], ''<dots_function_call>{"name":'', ''"f","arguments":{"x":1}}</dots_'', ''function_call>'']))
   \<and> never_streams loads_basic [] [[], ''<dots_function_call>{"name":'', ''"f","arguments":{"x":1}}</dots_'', ''function_call>'']
   \<and> session_calls (snd (run_session loads_basic dumps_basic init_state [[], ''<dots_function_call>{"name":'', ''"f","arguments":{"x":1}}</dots_'', ''function_call>''])) =
       [\<lparr>tool_index = 0, name = JStr ''f'', parameters = ''{"x": 1}''\<rparr>]
   \<and> detect_and_parse loads_basic (parse_base_json_spec 0 dumps_basic)
         (bot_token @ ''{"name":"f","arguments":{"x":1}}'' @ eot_token) =
       \<lparr>normal_text = [],
        calls = [\<lparr>tool_index = 0, name = JStr ''f'', parameters = ''{"x": 1}''\<rparr>]\<rparr>\<close>
proof -
  have h1: \<open>loads_basic (strip ''{"name":"f","arguments":{"x":1}}'') = Inr (JObj [(''name'', JStr ''f''), (''arguments'', JObj [(''x'', JInt 1)])])\<close>
    by code_simp
  have h2: \<open>name_ok (case map_of [(''name'', JStr ''f''), (''arguments'', JObj [(''x'', JInt 1)])] ''name'' of Some v \<Rightarrow> v | None \<Rightarrow> JNull)\<close>
    by code_simp
  have h3: \<open>str_find eot_token (''{"name":"f","arguments":{"x":1}}'' @ eot_token) = Some (length ''{"name":"f","arguments":{"x":1}}'')\<close>
    by code_simp
  have h4: \<open>concat [[], ''<dots_function_call>{"name":'', ''"f","arguments":{"x":1}}</dots_'', ''function_call>''] = bot_token @ ''{"name":"f","arguments":{"x":1}}'' @ eot_token\<close>
    by code_simp
  have h5: \<open>prefix bot_token (hd (dropWhile (\<lambda>f. f = []) [[], ''<dots_function_call>{"name":'', ''"f","arguments":{"x":1}}</dots_'', ''function_call>'']))\<close>
    by code_simp
  have h6: \<open>never_streams loads_basic [] [[], ''<dots_function_call>{"name":'', ''"f","arguments":{"x":1}}</dots_'', ''function_call>'']\<close>
    by code_simp
  have v1: "(case map_of [(''name'', JStr ''f''), (''arguments'', JObj [(''x'', JInt 1)])] ''name'' of Some v \<Rightarrow> v | None \<Rightarrow> JNull) = JStr ''f''"
    by code_simp
  have v2: "(case map_of [(''name'', JStr ''f''), (''arguments'', JObj [(''x'', JInt 1)])] ''arguments'' of Some v \<Rightarrow> v | None \<Rightarrow> JObj []) = JObj [(''x'', JInt 1)]"
    by code_simp
  have v3: \<open>parse_base_json_spec 0 dumps_basic
      (JObj [(''name'', JStr ''f''), (''parameters'', JObj [(''x'', JInt 1)])]) =
      Inr [\<lparr>tool_index = 0, name = JStr ''f'', parameters = ''{"x": 1}''\<rparr>]\<close>
    by code_simp
  have v4: \<open>(if truthy (JObj [(''x'', JInt 1)]) then dumps_basic (JObj [(''x'', JInt 1)]) else [])
      = ''{"x": 1}''\<close>
    by code_simp
  from chunk_size_invariance [where loads = loads_basic and dumps = dumps_basic
        and pbj = "parse_base_json_spec 0 dumps_basic", OF h1 h2 h3 h4 h5 h6]
  have r: \<open>session_calls (snd (run_session loads_basic dumps_basic init_state [[], ''<dots_function_call>{"name":'', ''"f","arguments":{"x":1}}</dots_'', ''function_call>''])) =
       [\<lparr>tool_index = 0, name = JStr ''f'', parameters = ''{"x": 1}''\<rparr>]
   \<and> detect_and_parse loads_basic (parse_base_json_spec 0 dumps_basic)
         (bot_token @ ''{"name":"f","arguments":{"x":1}}'' @ eot_token) =
       \<lparr>normal_text = [],
        calls = [\<lparr>tool_index = 0, name = JStr ''f'', parameters = ''{"x": 1}''\<rparr>]\<rparr>\<close>
    by (simp only: v1 v2 v3 v4 sum.case)
  from h1 h2 h3 h4 h5 h6 r show ?thesis
    by blast
qed

text \<open>
  C3 as stated fails when a fragment boundary falls inside the opening delimiter: a step
  that sees no whole opening delimiter clears the buffer, so the call is never found,
  while one-shot extraction on the unsplit text finds it.
\<close>

theorem chunk_size_invariance_counterexample:
  \<open>concat [''<dots_'', ''function_call>{"name":"f","arguments":{"x":1}}</dots_function_call>''] = ''<dots_function_call>{"name":"f","arguments":{"x":1}}</dots_function_call>''
   \<and> calls (detect_and_parse loads_basic (parse_base_json_spec 0 dumps_basic) ''<dots_function_call>{"name":"f","arguments":{"x":1}}</dots_function_call>'') =
       [\<lparr>tool_index = 0, name = JStr ''f'', parameters = ''{"x": 1}''\<rparr>]
   \<and> session_calls (snd (run_session loads_basic dumps_basic init_state [''<dots_'', ''function_call>{"name":"f","arguments":{"x":1}}</dots_function_call>''])) = []
   \<and> prev_tool_call_arr (fst (run_session loads_basic dumps_basic init_state [''<dots_'', ''function_call>{"name":"f","arguments":{"x":1}}</dots_function_call>''])) = []\<close>
  by code_simp

end
